theory Spec2Isabelle
  imports Complex_Main
begin

section \<open>JavaScript values and strings\<close>

text \<open>
  The library is JavaScript: payloads are arbitrary values and several decisions of the
  code are taken on their truthiness (\<^verbatim>\<open>fn(d) || d\<close>, \<^verbatim>\<open>body != null\<close>,
  \<^verbatim>\<open>body ? JSON.stringify(body) : ""\<close>). The values are modelled as a tree. Numbers are
  the integers among the doubles (no fractions, no NaN, no infinity): \<^verbatim>\<open>JNum n\<close> stands for
  the double nearest to \<^verbatim>\<open>n\<close>. An object is the list of its properties in the order they
  were created, without repeated keys.
\<close>

datatype jsval = JUndefined | JNull | JBool bool | JNum int | JStr string
  | JArr "jsval list" | JObj "(string \<times> jsval) list"

fun truthy :: "jsval \<Rightarrow> bool" where
  "truthy JUndefined = False"
| "truthy JNull = False"
| "truthy (JBool b) = b"
| "truthy (JNum n) = (n \<noteq> 0)"
| "truthy (JStr s) = (s \<noteq> [])"
| "truthy (JArr xs) = True"
| "truthy (JObj kvs) = True"

text \<open>\<^verbatim>\<open>v == null\<close> holds of \<^verbatim>\<open>null\<close> and \<^verbatim>\<open>undefined\<close> only.\<close>

definition nullish :: "jsval \<Rightarrow> bool" where
  "nullish v = (v = JUndefined \<or> v = JNull)"

text \<open>\<^verbatim>\<open>isObj = v => v && typeof v === "object" && !Array.isArray(v)\<close>\<close>

fun isObj :: "jsval \<Rightarrow> bool" where
  "isObj (JObj kvs) = True"
| "isObj v = False"

fun is_string :: "jsval \<Rightarrow> bool" where
  "is_string (JStr s) = True"
| "is_string v = False"

text \<open>
  \<^verbatim>\<open>toLowerCase\<close> and \<^verbatim>\<open>toUpperCase\<close> on the ASCII letters; every other character is
  left as it is.
\<close>

definition upper_letters :: string where
  "upper_letters = ''ABCDEFGHIJKLMNOPQRSTUVWXYZ''"

definition lower_letters :: string where
  "lower_letters = ''abcdefghijklmnopqrstuvwxyz''"

definition lower_char :: "char \<Rightarrow> char" where
  "lower_char c = (case map_of (zip upper_letters lower_letters) c of Some l \<Rightarrow> l | None \<Rightarrow> c)"

definition upper_char :: "char \<Rightarrow> char" where
  "upper_char c = (case map_of (zip lower_letters upper_letters) c of Some u \<Rightarrow> u | None \<Rightarrow> c)"

definition toLowerCase :: "string \<Rightarrow> string" where
  "toLowerCase s = map lower_char s"

definition toUpperCase :: "string \<Rightarrow> string" where
  "toUpperCase s = map upper_char s"

definition startsWith :: "string \<Rightarrow> string \<Rightarrow> bool" where
  "startsWith s p = (take (length p) s = p)"

definition endsWith :: "string \<Rightarrow> string \<Rightarrow> bool" where
  "endsWith s p = (length p \<le> length s \<and> drop (length s - length p) s = p)"

text \<open>\<^verbatim>\<open>s.includes(p)\<close>: \<^verbatim>\<open>p\<close> occurs in \<^verbatim>\<open>s\<close>.\<close>

fun str_includes :: "string \<Rightarrow> string \<Rightarrow> bool" where
  "str_includes [] p = (p = [])"
| "str_includes (c # cs) p = (take (length p) (c # cs) = p \<or> str_includes cs p)"

text \<open>
  JavaScript numbers are IEEE 754 doubles, and \<^verbatim>\<open>+\<close> and \<^verbatim>\<open>*\<close> round their exact result to
  the nearest double, ties to the even significand. On the integers: a natural number of
  at most 53 bits is a double; a longer one is rounded to its 53 leading bits. The
  exponent range is not modelled (doubles end near \<^verbatim>\<open>2^1024\<close>).
\<close>

fun bitlen :: "nat \<Rightarrow> nat" where
  "bitlen n = (if n = 0 then 0 else Suc (bitlen (n div 2)))"

declare bitlen.simps [simp del]

definition nearest_double :: "nat \<Rightarrow> nat" where
  "nearest_double n =
     (if bitlen n \<le> 53 then n
      else (let s = bitlen n - 53; q = n div 2 ^ s; r = n mod 2 ^ s; h = 2 ^ (s - 1)
            in if r < h \<or> (r = h \<and> even q) then q * 2 ^ s else (q + 1) * 2 ^ s))"

definition js_number :: "int \<Rightarrow> int" where
  "js_number x =
     (if x < 0 then - int (nearest_double (nat (- x))) else int (nearest_double (nat x)))"

definition js_add :: "int \<Rightarrow> int \<Rightarrow> int" where
  "js_add x y = js_number (x + y)"

definition js_mul :: "int \<Rightarrow> int \<Rightarrow> int" where
  "js_mul x y = js_number (x * y)"

text \<open>
  \<^verbatim>\<open>String(x)\<close> of a number, which \<^verbatim>\<open>JSON.stringify\<close> and template literals use: the
  decimal digits of the shortest decimal that reads back as the same double (the nearest
  one when there are two), written in full when it has at most 21 digits and as
  \<^verbatim>\<open>d.ddde+x\<close> otherwise. Below \<^verbatim>\<open>2^53\<close> that decimal is the integer itself.
\<close>

definition digit_chars :: string where
  "digit_chars = ''0123456789''"

fun digits :: "nat \<Rightarrow> string" where
  "digits n = (if n < 10 then [digit_chars ! n] else digits (n div 10) @ [digit_chars ! (n mod 10)])"

declare digits.simps [simp del]

primrec shortest_from :: "nat \<Rightarrow> nat \<Rightarrow> nat" where
  "shortest_from x 0 = x"
| "shortest_from x (Suc j) =
     (let p = 10 ^ Suc j; lo = x div p * p; hi = lo + p;
          lo_ok = (nearest_double lo = x); hi_ok = (nearest_double hi = x)
      in if lo_ok \<and> (\<not> hi_ok \<or> x - lo \<le> hi - x) then lo
         else if hi_ok then hi
         else shortest_from x j)"

definition shortest_decimal :: "nat \<Rightarrow> nat" where
  "shortest_decimal x = (if x < 2 ^ 53 then x else shortest_from x (length (digits x) - 1))"

definition number_digits :: "nat \<Rightarrow> string" where
  "number_digits x =
     (let ds = digits (shortest_decimal x); n = length ds
      in if n \<le> 21 then ds
         else (let sig = rev (dropWhile (\<lambda>c. c = CHR ''0'') (rev ds))
               in hd sig # (if tl sig = [] then [] else CHR ''.'' # tl sig) @ ''e+'' @ digits (n - 1)))"

definition show_int :: "int \<Rightarrow> string" where
  "show_int n =
     (let x = js_number n
      in if x < 0 then ''-'' @ number_digits (nat (- x)) else number_digits (nat x))"

text \<open>
  The properties of an object are enumerated with the array indices first (the keys that
  are the decimal form of an integer from 0 to \<^verbatim>\<open>2^32 - 2\<close>), in ascending order, and then
  the other keys in the order of their creation.
\<close>

definition index_value :: "string \<Rightarrow> nat" where
  "index_value k = foldl (\<lambda>n c. 10 * n + length (takeWhile (\<lambda>d. d \<noteq> c) digit_chars)) 0 k"

definition is_index :: "string \<Rightarrow> bool" where
  "is_index k \<longleftrightarrow>
     k \<noteq> [] \<and> list_all (\<lambda>c. c \<in> set digit_chars) k \<and> (k = ''0'' \<or> hd k \<noteq> CHR ''0'') \<and>
     index_value k \<le> 4294967294"

definition own_properties :: "(string \<times> 'a) list \<Rightarrow> (string \<times> 'a) list" where
  "own_properties kvs =
     sort_key (\<lambda>kv. index_value (fst kv)) (filter (\<lambda>kv. is_index (fst kv)) kvs) @
     filter (\<lambda>kv. \<not> is_index (fst kv)) kvs"

text \<open>
  \<^verbatim>\<open>JSON.stringify\<close> on the values above. In a string the quote, the backslash and the
  control characters are escaped; \<^verbatim>\<open>undefined\<close> inside an array prints as null and is
  dropped as a property. The code calls it on non-nullish or truthy values only.
\<close>

fun join :: "string list \<Rightarrow> string" where
  "join [] = []"
| "join [s] = s"
| "join (s # t # ts) = s @ '','' @ join (t # ts)"

definition json_escapes :: "(char \<times> string) list" where
  "json_escapes =
     [(CHR 0x22, [CHR 0x5C, CHR 0x22]),
      (CHR 0x5C, [CHR 0x5C, CHR 0x5C]),
      (CHR 0x00, [CHR 0x5C, CHR ''u'', CHR ''0'', CHR ''0'', CHR ''0'', CHR ''0'']),
      (CHR 0x01, [CHR 0x5C, CHR ''u'', CHR ''0'', CHR ''0'', CHR ''0'', CHR ''1'']),
      (CHR 0x02, [CHR 0x5C, CHR ''u'', CHR ''0'', CHR ''0'', CHR ''0'', CHR ''2'']),
      (CHR 0x03, [CHR 0x5C, CHR ''u'', CHR ''0'', CHR ''0'', CHR ''0'', CHR ''3'']),
      (CHR 0x04, [CHR 0x5C, CHR ''u'', CHR ''0'', CHR ''0'', CHR ''0'', CHR ''4'']),
      (CHR 0x05, [CHR 0x5C, CHR ''u'', CHR ''0'', CHR ''0'', CHR ''0'', CHR ''5'']),
      (CHR 0x06, [CHR 0x5C, CHR ''u'', CHR ''0'', CHR ''0'', CHR ''0'', CHR ''6'']),
      (CHR 0x07, [CHR 0x5C, CHR ''u'', CHR ''0'', CHR ''0'', CHR ''0'', CHR ''7'']),
      (CHR 0x08, [CHR 0x5C, CHR ''b'']),
      (CHR 0x09, [CHR 0x5C, CHR ''t'']),
      (CHR 0x0A, [CHR 0x5C, CHR ''n'']),
      (CHR 0x0B, [CHR 0x5C, CHR ''u'', CHR ''0'', CHR ''0'', CHR ''0'', CHR ''b'']),
      (CHR 0x0C, [CHR 0x5C, CHR ''f'']),
      (CHR 0x0D, [CHR 0x5C, CHR ''r'']),
      (CHR 0x0E, [CHR 0x5C, CHR ''u'', CHR ''0'', CHR ''0'', CHR ''0'', CHR ''e'']),
      (CHR 0x0F, [CHR 0x5C, CHR ''u'', CHR ''0'', CHR ''0'', CHR ''0'', CHR ''f'']),
      (CHR 0x10, [CHR 0x5C, CHR ''u'', CHR ''0'', CHR ''0'', CHR ''1'', CHR ''0'']),
      (CHR 0x11, [CHR 0x5C, CHR ''u'', CHR ''0'', CHR ''0'', CHR ''1'', CHR ''1'']),
      (CHR 0x12, [CHR 0x5C, CHR ''u'', CHR ''0'', CHR ''0'', CHR ''1'', CHR ''2'']),
      (CHR 0x13, [CHR 0x5C, CHR ''u'', CHR ''0'', CHR ''0'', CHR ''1'', CHR ''3'']),
      (CHR 0x14, [CHR 0x5C, CHR ''u'', CHR ''0'', CHR ''0'', CHR ''1'', CHR ''4'']),
      (CHR 0x15, [CHR 0x5C, CHR ''u'', CHR ''0'', CHR ''0'', CHR ''1'', CHR ''5'']),
      (CHR 0x16, [CHR 0x5C, CHR ''u'', CHR ''0'', CHR ''0'', CHR ''1'', CHR ''6'']),
      (CHR 0x17, [CHR 0x5C, CHR ''u'', CHR ''0'', CHR ''0'', CHR ''1'', CHR ''7'']),
      (CHR 0x18, [CHR 0x5C, CHR ''u'', CHR ''0'', CHR ''0'', CHR ''1'', CHR ''8'']),
      (CHR 0x19, [CHR 0x5C, CHR ''u'', CHR ''0'', CHR ''0'', CHR ''1'', CHR ''9'']),
      (CHR 0x1A, [CHR 0x5C, CHR ''u'', CHR ''0'', CHR ''0'', CHR ''1'', CHR ''a'']),
      (CHR 0x1B, [CHR 0x5C, CHR ''u'', CHR ''0'', CHR ''0'', CHR ''1'', CHR ''b'']),
      (CHR 0x1C, [CHR 0x5C, CHR ''u'', CHR ''0'', CHR ''0'', CHR ''1'', CHR ''c'']),
      (CHR 0x1D, [CHR 0x5C, CHR ''u'', CHR ''0'', CHR ''0'', CHR ''1'', CHR ''d'']),
      (CHR 0x1E, [CHR 0x5C, CHR ''u'', CHR ''0'', CHR ''0'', CHR ''1'', CHR ''e'']),
      (CHR 0x1F, [CHR 0x5C, CHR ''u'', CHR ''0'', CHR ''0'', CHR ''1'', CHR ''f''])]"

definition quote :: "string \<Rightarrow> string" where
  "quote s = [CHR 0x22] @
     concat (map (\<lambda>c. case map_of json_escapes c of Some e \<Rightarrow> e | None \<Rightarrow> [c]) s) @ [CHR 0x22]"

fun JSON_stringify :: "jsval \<Rightarrow> string" where
  "JSON_stringify JUndefined = ''null''"
| "JSON_stringify JNull = ''null''"
| "JSON_stringify (JBool b) = (if b then ''true'' else ''false'')"
| "JSON_stringify (JNum n) = show_int n"
| "JSON_stringify (JStr s) = quote s"
| "JSON_stringify (JArr xs) = ''['' @ join (map JSON_stringify xs) @ '']''"
| "JSON_stringify (JObj kvs) =
     ''{'' @ join (map (\<lambda>kv. quote (fst kv) @ '':'' @ snd kv)
                    (own_properties (map (\<lambda>kv. (fst kv, JSON_stringify (snd kv)))
                                      (filter (\<lambda>kv. snd kv \<noteq> JUndefined) kvs)))) @ ''}''"

text \<open>
  What a function can do in place to a value it is handed: change the properties of an
  object or the elements of an array. A primitive cannot be changed, and no value turns
  into a value of another kind.
\<close>

fun in_place :: "jsval \<Rightarrow> jsval \<Rightarrow> jsval" where
  "in_place (JObj kvs) (JObj kvs') = JObj kvs'"
| "in_place (JArr xs) (JArr xs') = JArr xs'"
| "in_place v v' = v"

text \<open>
  Header objects are association lists with distinct keys in insertion order.
  \<^verbatim>\<open>Object.assign(target, source)\<close> overwrites a key in place and appends a new one.
\<close>

type_synonym headers = "(string \<times> string) list"

fun set_prop :: "string \<Rightarrow> string \<Rightarrow> headers \<Rightarrow> headers" where
  "set_prop k v [] = [(k, v)]"
| "set_prop k v ((k', v') # kvs) = (if k = k' then (k, v) # kvs else (k', v') # set_prop k v kvs)"

definition assign :: "headers \<Rightarrow> headers \<Rightarrow> headers" where
  "assign target source = fold (\<lambda>kv t. set_prop (fst kv) (snd kv) t) source target"

text \<open>\<^verbatim>\<open>Object.keys(headers).find(k => k.toLowerCase() === "content-type")\<close>\<close>

definition find_content_type :: "headers \<Rightarrow> string option" where
  "find_content_type hs = find (\<lambda>k. toLowerCase k = ''content-type'') (map fst hs)"

text \<open>\<^verbatim>\<open>Headers.get(name)\<close> of the transport's reply: header names compare case-insensitively.\<close>

definition headers_get :: "headers \<Rightarrow> string \<Rightarrow> string option" where
  "headers_get hs name =
     map_option snd (find (\<lambda>kv. toLowerCase (fst kv) = toLowerCase name) hs)"

section \<open>Abort controllers\<close>

text \<open>
  \<^verbatim>\<open>AbortController\<close> is the platform's: a controller has a flag and the listeners
  registered on its signal. All listeners this library registers are
  \<^verbatim>\<open>() => other.abort()\<close>, so a listener is the controller it aborts. \<^verbatim>\<open>abort()\<close> on a
  controller already aborted does nothing; otherwise it sets the flag and dispatches the
  abort event, synchronously, to the listeners registered so far. A listener added after
  the event was dispatched is never called. Controllers live in a store and are named by
  their index.
\<close>

record ctrl =
  ctl_aborted :: bool
  ctl_listeners :: "nat list"

type_synonym store = "ctrl list"

definition new_AbortController :: "store \<Rightarrow> nat \<times> store" where
  "new_AbortController st = (length st, st @ [\<lparr>ctl_aborted = False, ctl_listeners = []\<rparr>])"

definition addEventListener :: "store \<Rightarrow> nat \<Rightarrow> nat \<Rightarrow> store" where
  "addEventListener st sg target =
     (if sg < length st
      then st[sg := (st ! sg)\<lparr>ctl_listeners := ctl_listeners (st ! sg) @ [target]\<rparr>]
      else st)"

definition is_aborted :: "store \<Rightarrow> nat \<Rightarrow> bool" where
  "is_aborted st c = (c < length st \<and> ctl_aborted (st ! c))"

function fire :: "nat list \<Rightarrow> store \<Rightarrow> store" where
  "fire [] st = st"
| "fire (c # cs) st =
     (if c < length st \<and> \<not> ctl_aborted (st ! c)
      then fire (ctl_listeners (st ! c) @ cs) (st[c := (st ! c)\<lparr>ctl_aborted := True\<rparr>])
      else fire cs st)"
  by pat_completeness auto

lemma filter_update_less:
  "c < length st \<Longrightarrow> P (st ! c) \<Longrightarrow> \<not> P x \<Longrightarrow>
   length (filter P (st[c := x])) < length (filter P st)"
proof (induction st arbitrary: c)
  case Nil
  then show ?case by simp
next
  case (Cons a st)
  show ?case
  proof (cases c)
    case 0
    with Cons.prems show ?thesis by simp
  next
    case (Suc k)
    with Cons.prems have "length (filter P (st[k := x])) < length (filter P st)"
      by (intro Cons.IH) simp_all
    with Suc show ?thesis by simp
  qed
qed

termination fire
  by (relation "measures [\<lambda>(ws, st). length (filter (\<lambda>k. \<not> ctl_aborted k) st),
                          \<lambda>(ws, st). length ws]")
     (auto intro!: filter_update_less)

declare fire.simps [simp del]

definition abort :: "store \<Rightarrow> nat \<Rightarrow> store" where
  "abort st c = fire [c] st"

text \<open>
  \<^verbatim>\<open>CancelToken()\<close> and \<^verbatim>\<open>cancelGroup()\<close> both create a controller and hand out its signal
  with \<^verbatim>\<open>cancel: reason => ctrl.abort(reason)\<close>.
\<close>

definition CancelToken :: "store \<Rightarrow> nat \<times> store" where
  "CancelToken st = new_AbortController st"

definition cancelGroup :: "store \<Rightarrow> nat \<times> store" where
  "cancelGroup st = new_AbortController st"

definition cancel :: "nat \<Rightarrow> store \<Rightarrow> store" where
  "cancel c st = abort st c"

section \<open>Requests, replies and results\<close>

text \<open>
  The per-call options object \<^verbatim>\<open>opts\<close>. A field that the code tests with \<^verbatim>\<open>in\<close> or with
  \<^verbatim>\<open>||\<close> is optional; numeric options are integers that are doubles; a signal is the
  index of its controller; \<^verbatim>\<open>op_group\<close> is \<^verbatim>\<open>opts.group.signal\<close>.
\<close>

record opts =
  op_headers :: "headers option"
  op_body :: "jsval option"
  op_data :: jsval
  op_timeout :: "int option"
  op_retry :: "int option"
  op_retries :: "int option"
  op_retryDelay :: "int option"
  op_cache :: "int option"
  op_signal :: "nat option"
  op_group :: "nat option"
  op_method :: "string option"
  op_url :: "string option"
  op_path :: "string option"
  op_pathname :: "string option"

definition no_opts :: opts where
  "no_opts = \<lparr>op_headers = None, op_body = None, op_data = JUndefined, op_timeout = None,
     op_retry = None, op_retries = None, op_retryDelay = None, op_cache = None,
     op_signal = None, op_group = None, op_method = None, op_url = None, op_path = None,
     op_pathname = None\<rparr>"

text \<open>The options handed to the transport call \<^verbatim>\<open>fetch(url, options)\<close>.\<close>

record fetch_options =
  o_method :: string
  o_headers :: headers
  o_body :: jsval
  o_signal :: "nat option"

text \<open>The interceptor config \<^verbatim>\<open>cfg\<close> built by \<^verbatim>\<open>handleFetchRaw\<close>.\<close>

record cfg =
  c_url :: string
  c_method :: string
  c_options :: fetch_options
  c_timeout :: int
  c_retries :: int
  c_retryDelay :: int
  c_cacheTTL :: int
  c_original :: "string \<times> opts"

text \<open>
  What the transport resolves with (\<^verbatim>\<open>res\<close>). \<^verbatim>\<open>res_json\<close> and \<^verbatim>\<open>res_text\<close> are what
  \<^verbatim>\<open>res.json()\<close> and \<^verbatim>\<open>res.text()\<close> give, \<^verbatim>\<open>None\<close> when the read fails.
\<close>

record http_reply =
  res_ok :: bool
  res_status :: int
  res_statusText :: string
  res_headers :: headers
  res_json :: "jsval option"
  res_text :: "string option"

record response =
  r_ok :: bool
  r_status :: int
  r_statusText :: string
  r_headers :: headers
  r_data :: jsval
  r_config :: cfg
  r_time :: int

text \<open>
  Errors: what the transport rejects with (its \<^verbatim>\<open>name\<close> and message), and the
  \<^verbatim>\<open>Error("HTTP status statusText")\<close> that the handler builds for an error status, with
  its \<^verbatim>\<open>status\<close> and \<^verbatim>\<open>response\<close>.
\<close>

datatype js_error = JsError string string | HttpError string int response

fun error_name :: "js_error \<Rightarrow> string" where
  "error_name (JsError name msg) = name"
| "error_name (HttpError msg st r) = ''Error''"

record failure =
  f_ok :: bool
  f_status :: int
  f_data :: jsval
  f_error :: js_error
  f_config :: cfg

datatype result = Success response | Failure failure

section \<open>Hooks\<close>

text \<open>
  A registered hook is called with live objects: it can change them in place, and then it
  throws, returns something falsy, or returns a value. So a hook maps what it is handed
  to what it leaves of it and to its outcome. An interceptor is handed the config or the
  response; a transform is handed the data and the headers, or the data and the response.
  Interceptors return objects, transforms any value, so a returned payload is tested for
  truthiness. What a hook does to anything else than its arguments is not modelled, and
  the objects are values: a change made through one of them is not seen through another
  that shares a part with it (the caller's \<^verbatim>\<open>opts\<close> kept in \<^verbatim>\<open>cfg.original\<close>, the data of a
  cached response).
\<close>

datatype 'a hook_out = Throws | Falsy | Gives 'a

type_synonym 'a interceptor = "'a \<Rightarrow> 'a \<times> 'a hook_out"

type_synonym 'b transform = "jsval \<Rightarrow> 'b \<Rightarrow> (jsval \<times> 'b) \<times> jsval hook_out"

datatype bound = Infinity | Limit int

text \<open>
  What registration builds: \<^verbatim>\<open>defaultConfig\<close> and \<^verbatim>\<open>globalErrors\<close>. A global handler is
  run for its effect; all the code can see of it is whether it throws.
\<close>

record config =
  baseURL :: string
  def_timeout :: int
  def_headers :: headers
  interceptors_request :: "cfg interceptor list"
  interceptors_response :: "response interceptor list"
  transformRequest :: "headers transform list"
  transformResponse :: "response transform list"
  maxConcurrent :: bound
  globalErrors :: "(js_error \<Rightarrow> cfg \<Rightarrow> bool) list"

text \<open>
  What requests change: \<^verbatim>\<open>memoryCache\<close> and the store of controllers, with two logs that
  make the side effects visible: the transport calls made, and the global handlers
  invoked (index of the handler, error, config, whether the handler itself threw).
\<close>

record cache_entry =
  ce_value :: response
  ce_expiresAt :: "int option"

record world =
  memoryCache :: "string \<rightharpoonup> cache_entry"
  controllers :: store
  transport_log :: "(string \<times> fetch_options) list"
  handler_log :: "(nat \<times> js_error \<times> cfg \<times> bool) list"

text \<open>
  \<^verbatim>\<open>for (const fn of chain) { try { modified = fn(modified) || modified; } catch {} }\<close>:
  when the function throws or returns something falsy, \<^verbatim>\<open>modified\<close> is still the object the
  function was handed, as the function left it.
\<close>

definition intercept :: "'a interceptor \<Rightarrow> 'a \<Rightarrow> 'a" where
  "intercept fn modified =
     (case fn modified of
        (left, Throws) \<Rightarrow> left
      | (left, Falsy) \<Rightarrow> left
      | (left, Gives v) \<Rightarrow> v)"

definition applyRequestInterceptors :: "config \<Rightarrow> cfg \<Rightarrow> cfg" where
  "applyRequestInterceptors conf c = fold intercept (interceptors_request conf) c"

definition applyResponseInterceptors :: "config \<Rightarrow> response \<Rightarrow> response" where
  "applyResponseInterceptors conf r = fold intercept (interceptors_response conf) r"

text \<open>
  \<^verbatim>\<open>for (const fn of chain) { try { d = fn(d, headers) || d; } catch {} }\<close>: the second
  argument is the same object for every function of the chain, and the caller of the
  chain holds it too.
\<close>

definition transform_step :: "'b transform \<Rightarrow> jsval \<times> 'b \<Rightarrow> jsval \<times> 'b" where
  "transform_step fn cur =
     (case fn (fst cur) (snd cur) of
        ((d, b), Throws) \<Rightarrow> (in_place (fst cur) d, b)
      | ((d, b), Falsy) \<Rightarrow> (in_place (fst cur) d, b)
      | ((d, b), Gives v) \<Rightarrow> (if truthy v then v else in_place (fst cur) d, b))"

definition applyTransformRequest :: "config \<Rightarrow> jsval \<Rightarrow> headers \<Rightarrow> jsval \<times> headers" where
  "applyTransformRequest conf dat hs = fold transform_step (transformRequest conf) (dat, hs)"

definition applyTransformResponse :: "config \<Rightarrow> jsval \<Rightarrow> response \<Rightarrow> jsval \<times> response" where
  "applyTransformResponse conf dat r = fold transform_step (transformResponse conf) (dat, r)"

text \<open>
  Registration appends: \<^verbatim>\<open>api.use\<close>, \<^verbatim>\<open>api.addTransformRequest\<close>,
  \<^verbatim>\<open>api.addTransformResponse\<close>, \<^verbatim>\<open>api.onError\<close> push onto their lists.
\<close>

definition use_request :: "cfg interceptor \<Rightarrow> config \<Rightarrow> config" where
  "use_request fn conf = conf\<lparr>interceptors_request := interceptors_request conf @ [fn]\<rparr>"

definition use_response :: "response interceptor \<Rightarrow> config \<Rightarrow> config" where
  "use_response fn conf = conf\<lparr>interceptors_response := interceptors_response conf @ [fn]\<rparr>"

definition addTransformRequest :: "headers transform \<Rightarrow> config \<Rightarrow> config" where
  "addTransformRequest fn conf = conf\<lparr>transformRequest := transformRequest conf @ [fn]\<rparr>"

definition addTransformResponse :: "response transform \<Rightarrow> config \<Rightarrow> config" where
  "addTransformResponse fn conf = conf\<lparr>transformResponse := transformResponse conf @ [fn]\<rparr>"

definition onError :: "(js_error \<Rightarrow> cfg \<Rightarrow> bool) \<Rightarrow> config \<Rightarrow> config" where
  "onError fn conf = conf\<lparr>globalErrors := globalErrors conf @ [fn]\<rparr>"

text \<open>
  \<^verbatim>\<open>for (const h of globalErrors) { try { h(err, cfg); } catch (e) {} }\<close>: every handler is
  called, in order, whatever the earlier ones did.
\<close>

fun run_handlers ::
  "nat \<Rightarrow> (js_error \<Rightarrow> cfg \<Rightarrow> bool) list \<Rightarrow> js_error \<Rightarrow> cfg \<Rightarrow> (nat \<times> js_error \<times> cfg \<times> bool) list" where
  "run_handlers i [] err c = []"
| "run_handlers i (h # hs) err c = (i, err, c, h err c) # run_handlers (Suc i) hs err c"

definition runGlobalErrors :: "config \<Rightarrow> js_error \<Rightarrow> cfg \<Rightarrow> world \<Rightarrow> world" where
  "runGlobalErrors conf err c w =
     w\<lparr>handler_log := handler_log w @ run_handlers 0 (globalErrors conf) err c\<rparr>"

section \<open>The retry executor\<close>

text \<open>
  What the world does during one transport attempt: the controllers that callers cancel
  while the call is pending, whether the timeout timer (when armed) elapses before the
  transport settles, how the transport settles when it is not aborted, \<^verbatim>\<open>Date.now()\<close> at
  that moment, the value of \<^verbatim>\<open>Math.random()\<close> for the jitter, and the controllers
  cancelled during the backoff sleep that follows. A transport call whose signal is
  aborted rejects with an error named AbortError; every call is taken to settle.
  \<^verbatim>\<open>Math.random()\<close> gives a double in \<^verbatim>\<open>[0, 1)\<close>, which is a fraction \<^verbatim>\<open>m / 2^k\<close> with \<^verbatim>\<open>m\<close>
  a natural number of at most 53 significant bits below \<^verbatim>\<open>2^k\<close> and \<^verbatim>\<open>k\<close> at most 1074:
  \<^verbatim>\<open>ev_random\<close> is the pair \<^verbatim>\<open>(m, k)\<close>.
\<close>

datatype settle = Resolves http_reply | Rejects string string

record attempt_env =
  ev_cancelled :: "nat list"
  ev_timer_first :: bool
  ev_settles :: settle
  ev_clock :: int
  ev_random :: "nat \<times> nat"
  ev_backoff_cancelled :: "nat list"

record retry_cfg =
  rc_url :: string
  rc_options :: fetch_options
  rc_retries :: int
  rc_retryDelay :: int
  rc_retryOn :: "int list option"
  rc_timeout :: int

record fetch_state =
  fs_store :: store
  fs_calls :: "(string \<times> fetch_options) list"
  fs_delays :: "int list"

datatype fetch_outcome = Returned http_reply int | Threw js_error

text \<open>\<^verbatim>\<open>retryOn = [429, 502, 503, 504]\<close> unless the caller of \<^verbatim>\<open>fetchWithRetry\<close> gives one.\<close>

definition retryOn :: "retry_cfg \<Rightarrow> int list" where
  "retryOn rc = (case rc_retryOn rc of Some l \<Rightarrow> l | None \<Rightarrow> [429, 502, 503, 504])"

text \<open>
  One pass of the loop body up to the settlement of \<^verbatim>\<open>await fetch(url, finalOptions)\<close>: a
  fresh controller \<^verbatim>\<open>ac\<close>, a listener on \<^verbatim>\<open>options.signal\<close> that aborts it, the timer
  that aborts it when \<^verbatim>\<open>timeout\<close> is a positive number, and the call. The result is how
  the call settled, \<^verbatim>\<open>ac.signal.aborted\<close>, and the new state.
\<close>

definition transport_attempt ::
  "retry_cfg \<Rightarrow> attempt_env \<Rightarrow> fetch_state \<Rightarrow> settle \<times> bool \<times> fetch_state" where
  "transport_attempt rc e s =
     (let (ac, st1) = new_AbortController (fs_store s);
          st2 = (case o_signal (rc_options rc) of
                   Some sg \<Rightarrow> addEventListener st1 sg ac | None \<Rightarrow> st1);
          armed = (rc_timeout rc > 0);
          finalOptions = (rc_options rc)\<lparr>o_signal := Some ac\<rparr>;
          st3 = fold cancel (ev_cancelled e) st2;
          st4 = (if armed \<and> ev_timer_first e then abort st3 ac else st3);
          outcome = (if is_aborted st4 ac
                     then Rejects ''AbortError'' ''The operation was aborted.''
                     else ev_settles e)
      in (outcome, is_aborted st4 ac,
          s\<lparr>fs_store := st4, fs_calls := fs_calls s @ [(rc_url rc, finalOptions)]\<rparr>))"

text \<open>\<^verbatim>\<open>retryDelay * Math.pow(2, attempt - 1)\<close>\<close>

definition backoff :: "int \<Rightarrow> nat \<Rightarrow> int" where
  "backoff retryDelay attempt = js_mul retryDelay (2 ^ (attempt - 1))"

text \<open>
  \<^verbatim>\<open>Math.floor(Math.random() * retryDelay)\<close>: the product of \<^verbatim>\<open>m / 2^k\<close> and \<^verbatim>\<open>retryDelay\<close> is
  the double nearest to \<^verbatim>\<open>m * retryDelay / 2^k\<close>, and rounding to 53 bits commutes with
  the division by \<^verbatim>\<open>2^k\<close>.
\<close>

definition jitter :: "int \<Rightarrow> nat \<times> nat \<Rightarrow> int" where
  "jitter retryDelay rnd = js_mul (int (fst rnd)) retryDelay div 2 ^ snd rnd"

text \<open>
  \<^verbatim>\<open>await new Promise(r => setTimeout(r, backoff + jitter))\<close>; \<^verbatim>\<open>fs_delays\<close> records the
  delay that \<^verbatim>\<open>setTimeout\<close> is asked for.
\<close>

definition sleep :: "retry_cfg \<Rightarrow> attempt_env \<Rightarrow> nat \<Rightarrow> fetch_state \<Rightarrow> fetch_state" where
  "sleep rc e attempt s =
     s\<lparr>fs_delays := fs_delays s @
          [js_add (backoff (rc_retryDelay rc) attempt) (jitter (rc_retryDelay rc) (ev_random e))],
       fs_store := fold cancel (ev_backoff_cancelled e) (fs_store s)\<rparr>"

text \<open>
  The \<^verbatim>\<open>while (true)\<close> loop; \<^verbatim>\<open>n\<close> is \<^verbatim>\<open>attempt\<close> on entry, so the pass that starts is
  attempt \<^verbatim>\<open>n + 1\<close>.
\<close>

function fetchWithRetry_loop ::
  "retry_cfg \<Rightarrow> (nat \<Rightarrow> attempt_env) \<Rightarrow> int \<Rightarrow> nat \<Rightarrow> fetch_state \<Rightarrow> fetch_outcome \<times> fetch_state" where
  "fetchWithRetry_loop rc env start n s =
     (case transport_attempt rc (env (Suc n)) s of
        (Rejects name msg, ac_aborted, s1) \<Rightarrow>
          if ac_aborted \<and> name = ''AbortError'' then (Threw (JsError name msg), s1)
          else if int (Suc n) \<le> rc_retries rc
          then fetchWithRetry_loop rc env start (Suc n) (sleep rc (env (Suc n)) (Suc n) s1)
          else (Threw (JsError name msg), s1)
      | (Resolves res, ac_aborted, s1) \<Rightarrow>
          if \<not> res_ok res \<and> int (Suc n) \<le> rc_retries rc \<and> res_status res \<in> set (retryOn rc)
          then fetchWithRetry_loop rc env start (Suc n) (sleep rc (env (Suc n)) (Suc n) s1)
          else (Returned res (ev_clock (env (Suc n)) - start), s1))"
  by pat_completeness auto

termination fetchWithRetry_loop
  by (relation "measure (\<lambda>(rc, env, start, n, s). nat (rc_retries rc - int n))") auto

declare fetchWithRetry_loop.simps [simp del]

definition fetchWithRetry ::
  "retry_cfg \<Rightarrow> (nat \<Rightarrow> attempt_env) \<Rightarrow> int \<Rightarrow> store \<Rightarrow> fetch_outcome \<times> fetch_state" where
  "fetchWithRetry rc env start st =
     fetchWithRetry_loop rc env start 0 \<lparr>fs_store = st, fs_calls = [], fs_delays = []\<rparr>"

section \<open>The core handler\<close>

definition strip_trailing_slashes :: "string \<Rightarrow> string" where
  "strip_trailing_slashes s = rev (dropWhile (\<lambda>c. c = CHR ''/'') (rev s))"

definition strip_leading_slashes :: "string \<Rightarrow> string" where
  "strip_leading_slashes s = dropWhile (\<lambda>c. c = CHR ''/'') s"

text \<open>\<^verbatim>\<open>/^https?:\/\//i.test(url)\<close>\<close>

definition is_absolute :: "string \<Rightarrow> bool" where
  "is_absolute u = (toLowerCase (take 7 u) = ''http://'' \<or> toLowerCase (take 8 u) = ''https://'')"

definition fullUrl :: "config \<Rightarrow> string \<Rightarrow> string" where
  "fullUrl conf u =
     (if u = [] then baseURL conf
      else if is_absolute u then u
      else if baseURL conf = [] then u
      else if endsWith (baseURL conf) ''/'' \<or> startsWith u ''/''
      then strip_trailing_slashes (baseURL conf) @ ''/'' @ strip_leading_slashes u
      else baseURL conf @ ''/'' @ strip_leading_slashes u)"

definition makeCacheKey :: "string \<Rightarrow> string \<Rightarrow> jsval \<Rightarrow> string" where
  "makeCacheKey m u body =
     toUpperCase m @ ''::'' @ u @ ''::'' @ (if truthy body then JSON_stringify body else [])"

text \<open>
  \<^verbatim>\<open>getCached(key)\<close> at the instant \<^verbatim>\<open>now = Date.now()\<close>: an entry past its expiry is
  deleted and reported absent.
\<close>

definition getCached :: "int \<Rightarrow> string \<Rightarrow> world \<Rightarrow> response option \<times> world" where
  "getCached now key w =
     (case memoryCache w key of
        None \<Rightarrow> (None, w)
      | Some entry \<Rightarrow>
          (case ce_expiresAt entry of
             Some e \<Rightarrow>
               if e \<noteq> 0 \<and> now > e
               then (None, w\<lparr>memoryCache := (memoryCache w)(key := None)\<rparr>)
               else (Some (ce_value entry), w)
           | None \<Rightarrow> (Some (ce_value entry), w)))"

text \<open>
  The transport options as \<^verbatim>\<open>handleFetchRaw\<close> builds them from the method it was called
  with, the merged headers and the body after the request transforms.
\<close>

definition build_options :: "string \<Rightarrow> headers \<Rightarrow> jsval \<Rightarrow> fetch_options" where
  "build_options m hs body =
     (let options = \<lparr>o_method = toUpperCase m, o_headers = assign [] hs,
                      o_body = JUndefined, o_signal = None\<rparr>
      in if \<not> nullish body \<and> m \<noteq> ''GET'' \<and> m \<noteq> ''HEAD''
         then (let ct = (case find_content_type (o_headers options) of
                           Some k \<Rightarrow> (case map_of (o_headers options) k of
                                        Some v \<Rightarrow> v | None \<Rightarrow> [])
                         | None \<Rightarrow> [])
               in if ct \<noteq> [] \<and> str_includes ct ''application/json'' \<and> \<not> is_string body
                  then options\<lparr>o_body := JStr (JSON_stringify body)\<rparr>
                  else options\<lparr>o_body := body\<rparr>)
         else options)"

text \<open>
  The user's signal is taken as it is; with a group, a new controller listens to the
  user's signal and to the group's, and its signal replaces \<^verbatim>\<open>options.signal\<close>.
\<close>

definition compose_signals :: "opts \<Rightarrow> fetch_options \<Rightarrow> store \<Rightarrow> fetch_options \<times> store" where
  "compose_signals op options st =
     (let options1 = (case op_signal op of
                        Some sg \<Rightarrow> options\<lparr>o_signal := Some sg\<rparr> | None \<Rightarrow> options)
      in case op_group op of
           None \<Rightarrow> (options1, st)
         | Some g \<Rightarrow>
             (let (combined, st1) = new_AbortController st;
                  st2 = (case o_signal options1 of
                           Some sg \<Rightarrow> addEventListener st1 sg combined | None \<Rightarrow> st1);
                  st3 = addEventListener st2 g combined
              in (options1\<lparr>o_signal := Some combined\<rparr>, st3)))"

text \<open>
  The first part of \<^verbatim>\<open>handleFetchRaw\<close>, down to the interceptor config \<^verbatim>\<open>cfg\<close> as it is
  before the request interceptors run: the request transforms have shaped the body (and
  have had the merged headers in their hands), the options are built and the signals
  composed.
\<close>

definition request_config :: "config \<Rightarrow> string \<Rightarrow> string \<Rightarrow> opts \<Rightarrow> store \<Rightarrow> cfg \<times> store" where
  "request_config conf m urlPath op st =
     (let hs = assign (assign [] (def_headers conf))
                 (case op_headers op of Some h \<Rightarrow> h | None \<Rightarrow> []);
          body = (case op_body op of Some b \<Rightarrow> b | None \<Rightarrow> op_data op);
          (body1, hs1) = applyTransformRequest conf body hs;
          (options, st1) = compose_signals op (build_options m hs1 body1) st
      in (\<lparr>c_url = fullUrl conf urlPath,
           c_method = o_method options,
           c_options = options,
           c_timeout = (case op_timeout op of Some t \<Rightarrow> t | None \<Rightarrow> def_timeout conf),
           c_retries = (case op_retry op of
                          Some r \<Rightarrow> r
                        | None \<Rightarrow> (case op_retries op of Some r \<Rightarrow> r | None \<Rightarrow> 0)),
           c_retryDelay = (case op_retryDelay op of
                             Some d \<Rightarrow> if d \<noteq> 0 then d else 300 | None \<Rightarrow> 300),
           c_cacheTTL = (case op_cache op of Some t \<Rightarrow> t | None \<Rightarrow> 0),
           c_original = (urlPath, op)\<rparr>, st1))"

text \<open>
  What the \<^verbatim>\<open>task\<close> closure captures: the config after the request interceptors and what
  is read from it, the cache key, and \<^verbatim>\<open>cacheTTL\<close>, which is read from the call's options.
\<close>

record prepared =
  p_cfg :: cfg
  p_options :: fetch_options
  p_timeout :: int
  p_finalUrl :: string
  p_cacheKey :: string
  p_cacheTTL :: int

definition prepare :: "int \<Rightarrow> cfg \<Rightarrow> prepared" where
  "prepare cacheTTL c =
     \<lparr>p_cfg = c, p_options = c_options c, p_timeout = c_timeout c, p_finalUrl = c_url c,
      p_cacheKey = makeCacheKey (c_method c) (c_url c) (o_body (c_options c)),
      p_cacheTTL = cacheTTL\<rparr>"

text \<open>
  The cache-hit branch: a copy of the cached response goes through the response
  interceptors, then its data through the response transforms.
\<close>

definition serve_cached :: "config \<Rightarrow> response \<Rightarrow> response" where
  "serve_cached conf cached =
     (let response = applyResponseInterceptors conf cached;
          (d, response1) = applyTransformResponse conf (r_data response) response
      in response1\<lparr>r_data := if truthy d then d else r_data response1\<rparr>)"

datatype lookup = Hit response | Miss prepared

text \<open>
  \<^verbatim>\<open>handleFetchRaw\<close> up to \<^verbatim>\<open>return enqueue(task)\<close>, called at the instant \<^verbatim>\<open>now\<close>: either
  the cache answers (\<^verbatim>\<open>Hit\<close>, the value returned), or the task is handed to the queue
  (\<^verbatim>\<open>Miss\<close>).
\<close>

definition handleFetchRaw :: "config \<Rightarrow> int \<Rightarrow> string \<Rightarrow> string \<Rightarrow> opts \<Rightarrow> world \<Rightarrow> lookup \<times> world" where
  "handleFetchRaw conf now m urlPath op w =
     (case request_config conf m urlPath op (controllers w) of
        (c0, st) \<Rightarrow>
          (let w1 = w\<lparr>controllers := st\<rparr>;
               p = prepare (c_cacheTTL c0) (applyRequestInterceptors conf c0)
           in if c_method (p_cfg p) = ''GET'' \<and> p_cacheTTL p > 0
              then (case getCached now (p_cacheKey p) w1 of
                      (Some cached, w2) \<Rightarrow> (Hit (serve_cached conf cached), w2)
                    | (None, w2) \<Rightarrow> (Miss p, w2))
              else (Miss p, w1)))"

text \<open>
  The body of the reply: parsed as JSON when the content type says so, as text otherwise,
  \<^verbatim>\<open>null\<close> when the read fails.
\<close>

definition parse_data :: "http_reply \<Rightarrow> jsval" where
  "parse_data res =
     (let contentType = (case headers_get (res_headers res) ''Content-Type'' of
                           Some v \<Rightarrow> v | None \<Rightarrow> [])
      in if str_includes contentType ''application/json''
         then (case res_json res of Some v \<Rightarrow> v | None \<Rightarrow> JNull)
         else (case res_text res of Some t \<Rightarrow> JStr t | None \<Rightarrow> JNull))"

definition build_response :: "cfg \<Rightarrow> http_reply \<Rightarrow> int \<Rightarrow> response" where
  "build_response c res duration =
     \<lparr>r_ok = res_ok res, r_status = res_status res, r_statusText = res_statusText res,
      r_headers = res_headers res, r_data = parse_data res, r_config = c, r_time = duration\<rparr>"

text \<open>
  The network branch: the response transforms shape the data, then the response
  interceptors see the response.
\<close>

definition shape_response :: "config \<Rightarrow> response \<Rightarrow> response" where
  "shape_response conf response =
     (let (d, response1) = applyTransformResponse conf (r_data response) response
      in applyResponseInterceptors conf (response1\<lparr>r_data := d\<rparr>))"

definition http_error :: "http_reply \<Rightarrow> response \<Rightarrow> js_error" where
  "http_error res finalResponse =
     HttpError (''HTTP '' @ show_int (res_status res) @ '' '' @ res_statusText res)
       (res_status res) finalResponse"

text \<open>
  The cache write at the instant \<^verbatim>\<open>now\<close>. The expiry \<^verbatim>\<open>Date.now() + cacheTTL * 1000\<close> and the
  duration \<^verbatim>\<open>Date.now() - start\<close> are written exactly: a clock in milliseconds and a time to
  live in seconds stay far below \<^verbatim>\<open>2^53\<close>.
\<close>

definition cache_write :: "prepared \<Rightarrow> int \<Rightarrow> response \<Rightarrow> world \<Rightarrow> world" where
  "cache_write p now finalResponse w =
     (if c_method (p_cfg p) = ''GET'' \<and> p_cacheTTL p > 0
      then w\<lparr>memoryCache := (memoryCache w)(p_cacheKey p \<mapsto>
             \<lparr>ce_value = finalResponse,
              ce_expiresAt = (if p_cacheTTL p > 0
                              then Some (now + p_cacheTTL p * 1000) else None)\<rparr>)\<rparr>
      else w)"

definition retry_config :: "prepared \<Rightarrow> retry_cfg" where
  "retry_config p =
     \<lparr>rc_url = p_finalUrl p, rc_options = p_options p, rc_retries = c_retries (p_cfg p),
      rc_retryDelay = c_retryDelay (p_cfg p), rc_retryOn = None, rc_timeout = p_timeout p\<rparr>"

text \<open>The effects of \<^verbatim>\<open>fetchWithRetry\<close> on the world: the store and the calls made.\<close>

definition absorb :: "fetch_state \<Rightarrow> world \<Rightarrow> world" where
  "absorb s w = w\<lparr>controllers := fs_store s, transport_log := transport_log w @ fs_calls s\<rparr>"

text \<open>
  The \<^verbatim>\<open>task\<close> closure, run when the queue admits it: \<^verbatim>\<open>start\<close> is \<^verbatim>\<open>Date.now()\<close> when
  \<^verbatim>\<open>fetchWithRetry\<close> begins and \<^verbatim>\<open>now\<close> when the cache is written. The value returned is
  the value the request's promise resolves to.
\<close>

definition task ::
  "config \<Rightarrow> prepared \<Rightarrow> (nat \<Rightarrow> attempt_env) \<Rightarrow> int \<Rightarrow> int \<Rightarrow> world \<Rightarrow> result \<times> world" where
  "task conf p env start now w =
     (case fetchWithRetry (retry_config p) env start (controllers w) of
        (Threw err, s) \<Rightarrow>
          (Failure \<lparr>f_ok = False, f_status = 0, f_data = JNull, f_error = err,
                    f_config = p_cfg p\<rparr>,
           runGlobalErrors conf err (p_cfg p) (absorb s w))
      | (Returned res duration, s) \<Rightarrow>
          (let finalResponse = shape_response conf (build_response (p_cfg p) res duration)
           in if \<not> res_ok res
              then (Failure \<lparr>f_ok = False, f_status = res_status res,
                             f_data = r_data finalResponse,
                             f_error = http_error res finalResponse, f_config = p_cfg p\<rparr>,
                    runGlobalErrors conf (http_error res finalResponse) (p_cfg p) (absorb s w))
              else (Success finalResponse, cache_write p now finalResponse (absorb s w))))"

text \<open>
  A request whose task is admitted at once and runs to its settlement: the handler, then
  the task on a miss.
\<close>

definition request ::
  "config \<Rightarrow> int \<Rightarrow> string \<Rightarrow> string \<Rightarrow> opts \<Rightarrow> (nat \<Rightarrow> attempt_env) \<Rightarrow> int \<Rightarrow> world \<Rightarrow> result \<times> world" where
  "request conf now m urlPath op env now' w =
     (case handleFetchRaw conf now m urlPath op w of
        (Hit r, w1) \<Rightarrow> (Success r, w1)
      | (Miss p, w1) \<Rightarrow> task conf p env now now' w1)"

section \<open>The concurrency queue\<close>

text \<open>
  \<^verbatim>\<open>activeCount\<close> and \<^verbatim>\<open>queue\<close> are the code's variables. The other fields record what
  the closures hold and the history: \<^verbatim>\<open>running\<close> are the tasks whose promise is pending
  (each carries the \<^verbatim>\<open>finally\<close> callback), \<^verbatim>\<open>arrived\<close> the tasks in the order
  \<^verbatim>\<open>enqueue\<close> was called with them, \<^verbatim>\<open>admitted\<close> the tasks in the order \<^verbatim>\<open>run\<close> started
  them. \<^verbatim>\<open>maxConcurrent\<close> is an integer or \<^verbatim>\<open>Infinity\<close>.
\<close>

record 't cqueue =
  activeCount :: int
  queue :: "'t list"
  running :: "'t list"
  arrived :: "'t list"
  admitted :: "'t list"

definition empty_queue :: "'t cqueue" where
  "empty_queue = \<lparr>activeCount = 0, queue = [], running = [], arrived = [], admitted = []\<rparr>"

fun below :: "int \<Rightarrow> bound \<Rightarrow> bool" where
  "below n Infinity = True"
| "below n (Limit m) = (n < m)"

text \<open>\<^verbatim>\<open>run\<close>: \<^verbatim>\<open>activeCount++\<close> and the task is started.\<close>

definition run :: "'t \<Rightarrow> 't cqueue \<Rightarrow> 't cqueue" where
  "run t q = q\<lparr>activeCount := activeCount q + 1, running := running q @ [t],
               admitted := admitted q @ [t]\<rparr>"

definition enqueue :: "bound \<Rightarrow> 't \<Rightarrow> 't cqueue \<Rightarrow> 't cqueue" where
  "enqueue mx t q =
     (let q1 = q\<lparr>arrived := arrived q @ [t]\<rparr>
      in if below (activeCount q1) mx then run t q1 else q1\<lparr>queue := queue q1 @ [t]\<rparr>)"

text \<open>
  The \<^verbatim>\<open>finally\<close> callback of a running task, called when its promise settles, fulfilled
  or rejected: \<^verbatim>\<open>activeCount--\<close>, then \<^verbatim>\<open>queue.shift()\<close> is run if the queue is not empty.
\<close>

datatype settlement = Fulfilled | Rejected

definition on_settled :: "settlement \<Rightarrow> 't \<Rightarrow> 't cqueue \<Rightarrow> 't cqueue" where
  "on_settled how t q =
     (let q1 = q\<lparr>activeCount := activeCount q - 1, running := remove1 t (running q)\<rparr>
      in case queue q1 of
           [] \<Rightarrow> q1
         | nxt # rest \<Rightarrow> run nxt (q1\<lparr>queue := rest\<rparr>))"

text \<open>
  The queue moves when a request is submitted and when a running task settles; only a
  running task has a promise that can settle.
\<close>

datatype 't event = Submit 't | Settles 't settlement

fun step :: "bound \<Rightarrow> 't cqueue \<Rightarrow> 't event \<Rightarrow> 't cqueue" where
  "step mx q (Submit t) = enqueue mx t q"
| "step mx q (Settles t how) = (if t \<in> set (running q) then on_settled how t q else q)"

definition exec :: "bound \<Rightarrow> 't event list \<Rightarrow> 't cqueue" where
  "exec mx evs = foldl (step mx) empty_queue evs"

text \<open>
  What holds of the queue after any sequence of submissions and settlements: the counter
  counts the running tasks, the tasks arrived are the tasks admitted followed by the
  tasks waiting, a task waits only when there is no capacity, and the counter stays
  within a non-negative limit.
\<close>

definition queue_inv :: "bound \<Rightarrow> 't cqueue \<Rightarrow> bool" where
  "queue_inv mx q \<longleftrightarrow>
     activeCount q = int (length (running q)) \<and>
     arrived q = admitted q @ queue q \<and>
     (queue q \<noteq> [] \<longrightarrow> \<not> below (activeCount q) mx) \<and>
     (\<forall>N. mx = Limit N \<and> 0 \<le> N \<longrightarrow> activeCount q \<le> N)"

section \<open>The public verbs\<close>

text \<open>
  The wrappers shuffle their arguments and call \<^verbatim>\<open>handleFetchRaw(method, url, options)\<close>;
  \<^verbatim>\<open>Call\<close> holds the three arguments of that call.
\<close>

datatype call = Call string string opts

text \<open>\<^verbatim>\<open>api.get\<close>, \<^verbatim>\<open>api.head\<close>, \<^verbatim>\<open>api.delete\<close>: the second argument is the options.\<close>

definition verb_plain :: "string \<Rightarrow> string \<Rightarrow> opts option \<Rightarrow> call" where
  "verb_plain m u bodyOrOptions =
     Call m u (case bodyOrOptions of Some op \<Rightarrow> op | None \<Rightarrow> no_opts)"

text \<open>
  \<^verbatim>\<open>api.post\<close>, \<^verbatim>\<open>api.put\<close>, \<^verbatim>\<open>api.patch\<close>: the second argument is the body (\<^verbatim>\<open>{}\<close> when
  it is undefined), the third the options; a JSON content type is set for an object body
  when the options name none.
\<close>

definition verb_body :: "string \<Rightarrow> string \<Rightarrow> jsval \<Rightarrow> opts option \<Rightarrow> call" where
  "verb_body m u bodyOrOptions maybeOptions =
     (let body = (if bodyOrOptions = JUndefined then JObj [] else bodyOrOptions);
          options = (case maybeOptions of Some op \<Rightarrow> op | None \<Rightarrow> no_opts);
          hs = (case op_headers options of Some h \<Rightarrow> h | None \<Rightarrow> []);
          hs1 = (if find_content_type hs = None \<and> isObj body
                 then set_prop ''Content-Type'' ''application/json'' hs else hs)
      in Call m u (options\<lparr>op_headers := Some hs1, op_body := Some body\<rparr>))"

definition api_get :: "string \<Rightarrow> opts option \<Rightarrow> call" where
  "api_get u options = verb_plain ''get'' u options"

definition api_head :: "string \<Rightarrow> opts option \<Rightarrow> call" where
  "api_head u options = verb_plain ''head'' u options"

definition api_delete :: "string \<Rightarrow> opts option \<Rightarrow> call" where
  "api_delete u options = verb_plain ''delete'' u options"

definition api_post :: "string \<Rightarrow> jsval \<Rightarrow> opts option \<Rightarrow> call" where
  "api_post u body options = verb_body ''post'' u body options"

definition api_put :: "string \<Rightarrow> jsval \<Rightarrow> opts option \<Rightarrow> call" where
  "api_put u body options = verb_body ''put'' u body options"

definition api_patch :: "string \<Rightarrow> jsval \<Rightarrow> opts option \<Rightarrow> call" where
  "api_patch u body options = verb_body ''patch'' u body options"

text \<open>\<^verbatim>\<open>a || b\<close> on optional strings: the empty string is falsy.\<close>

fun or_str :: "string option \<Rightarrow> string \<Rightarrow> string" where
  "or_str None d = d"
| "or_str (Some s) d = (if s = [] then d else s)"

definition api_request :: "opts \<Rightarrow> call" where
  "api_request options =
     (let m = toLowerCase (or_str (op_method options) ''GET'');
          u = or_str (op_url options) (or_str (op_path options) (or_str (op_pathname options) []))
      in if m \<in> set [''get'', ''post'', ''put'', ''patch'', ''delete'', ''head'']
         then (if m = ''get'' \<or> m = ''head'' \<or> m = ''delete''
               then verb_plain m u (Some options)
               else verb_body m u
                      (if truthy (op_data options) then op_data options
                       else case op_body options of
                              Some b \<Rightarrow> if truthy b then b else JObj []
                            | None \<Rightarrow> JObj [])
                      (Some options))
         else Call m u options)"

text \<open>The call itself.\<close>

fun handle_call :: "config \<Rightarrow> int \<Rightarrow> call \<Rightarrow> world \<Rightarrow> lookup \<times> world" where
  "handle_call conf now (Call m u op) w = handleFetchRaw conf now m u op w"

section \<open>Example inputs\<close>

definition ex_options :: fetch_options where
  "ex_options = \<lparr>o_method = ''GET'', o_headers = [], o_body = JUndefined, o_signal = None\<rparr>"

definition ex_retry :: "int \<Rightarrow> int \<Rightarrow> retry_cfg" where
  "ex_retry r t = \<lparr>rc_url = ''https://api.example.com/posts'', rc_options = ex_options,
     rc_retries = r, rc_retryDelay = 300, rc_retryOn = None, rc_timeout = t\<rparr>"

definition ex_offline :: "nat \<Rightarrow> attempt_env" where
  "ex_offline k = \<lparr>ev_cancelled = [], ev_timer_first = False,
     ev_settles = Rejects ''TypeError'' ''Failed to fetch'', ev_clock = 0, ev_random = (1, 1),
     ev_backoff_cancelled = []\<rparr>"

definition ex_hangs :: "nat \<Rightarrow> attempt_env" where
  "ex_hangs k = \<lparr>ev_cancelled = [], ev_timer_first = True,
     ev_settles = Rejects ''TypeError'' ''Failed to fetch'', ev_clock = 0, ev_random = (1, 1),
     ev_backoff_cancelled = []\<rparr>"

definition ex_unlucky :: "nat \<Rightarrow> attempt_env" where
  "ex_unlucky k = \<lparr>ev_cancelled = [], ev_timer_first = False,
     ev_settles = Rejects ''TypeError'' ''Failed to fetch'', ev_clock = 0,
     ev_random = (2 ^ 53 - 1, 53), ev_backoff_cancelled = []\<rparr>"

definition ex_conf :: config where
  "ex_conf = \<lparr>baseURL = ''https://api.example.com'', def_timeout = 0, def_headers = [],
     interceptors_request = [], interceptors_response = [], transformRequest = [],
     transformResponse = [], maxConcurrent = Infinity, globalErrors = []\<rparr>"

definition ex_world :: world where
  "ex_world = \<lparr>memoryCache = Map.empty, controllers = [], transport_log = [], handler_log = []\<rparr>"

definition ex_reply :: "bool \<Rightarrow> int \<Rightarrow> string \<Rightarrow> http_reply" where
  "ex_reply k st body = \<lparr>res_ok = k, res_status = st, res_statusText = ''OK'',
     res_headers = [(''content-type'', ''text/plain'')], res_json = None, res_text = Some body\<rparr>"

definition ex_answers :: "http_reply \<Rightarrow> nat \<Rightarrow> attempt_env" where
  "ex_answers res k = \<lparr>ev_cancelled = [], ev_timer_first = False, ev_settles = Resolves res,
     ev_clock = 40, ev_random = (1, 1), ev_backoff_cancelled = []\<rparr>"

definition ex_exclaim :: "response transform" where
  "ex_exclaim d r = ((d, r), case d of JStr s \<Rightarrow> Gives (JStr (s @ ''!'')) | _ \<Rightarrow> Falsy)"

definition ex_stamp :: "response interceptor" where
  "ex_stamp r = (r, Gives (r\<lparr>r_statusText := (case r_data r of JStr s \<Rightarrow> s | _ \<Rightarrow> [])\<rparr>))"

definition ex_hooks :: config where
  "ex_hooks = ex_conf\<lparr>transformResponse := [ex_exclaim], interceptors_response := [ex_stamp]\<rparr>"

definition ex_cache_opts :: opts where
  "ex_cache_opts = no_opts\<lparr>op_cache := Some 10\<rparr>"

definition ex_get_cfg :: cfg where
  "ex_get_cfg = \<lparr>c_url = ''https://api.example.com/posts'', c_method = ''GET'',
     c_options = ex_options, c_timeout = 0, c_retries = 0, c_retryDelay = 300,
     c_cacheTTL = 10, c_original = (''/posts'', ex_cache_opts)\<rparr>"

definition ex_key :: string where
  "ex_key = ''GET::https://api.example.com/posts::''"

definition ex_shaped :: response where
  "ex_shaped = \<lparr>r_ok = True, r_status = 200, r_statusText = ''hi!'',
     r_headers = [(''content-type'', ''text/plain'')], r_data = JStr ''hi!'',
     r_config = ex_get_cfg, r_time = 40\<rparr>"

definition ex_cached_world :: world where
  "ex_cached_world = \<lparr>memoryCache = [ex_key \<mapsto> \<lparr>ce_value = ex_shaped, ce_expiresAt = Some 11000\<rparr>],
     controllers = [\<lparr>ctl_aborted = False, ctl_listeners = []\<rparr>],
     transport_log = [(''https://api.example.com/posts'', ex_options\<lparr>o_signal := Some 0\<rparr>)],
     handler_log = []\<rparr>"

definition ex_group_world :: world where
  "ex_group_world = ex_world\<lparr>controllers := [\<lparr>ctl_aborted = False, ctl_listeners = []\<rparr>]\<rparr>"

definition ex_group_opts :: opts where
  "ex_group_opts = no_opts\<lparr>op_group := Some 0\<rparr>"

definition ex_queued :: prepared where
  "ex_queued = prepare 0
     \<lparr>c_url = ''https://api.example.com/b'', c_method = ''GET'',
      c_options = ex_options\<lparr>o_signal := Some 1\<rparr>, c_timeout = 0, c_retries = 0,
      c_retryDelay = 300, c_cacheTTL = 0, c_original = (''/b'', ex_group_opts)\<rparr>"

definition ex_cancelled_world :: world where
  "ex_cancelled_world = ex_world\<lparr>controllers :=
     [\<lparr>ctl_aborted = True, ctl_listeners = [1]\<rparr>, \<lparr>ctl_aborted = True, ctl_listeners = []\<rparr>]\<rparr>"

definition ex_group_cancel :: "nat \<Rightarrow> attempt_env" where
  "ex_group_cancel k = \<lparr>ev_cancelled = [0], ev_timer_first = False,
     ev_settles = Resolves (ex_reply True 200 ''b''), ev_clock = 40, ev_random = (1, 1),
     ev_backoff_cancelled = []\<rparr>"

definition ex_served :: response where
  "ex_served = \<lparr>r_ok = True, r_status = 200, r_statusText = ''OK'',
     r_headers = [(''content-type'', ''text/plain'')], r_data = JStr ''b'',
     r_config = p_cfg ex_queued, r_time = 40\<rparr>"

definition ex_refused :: response where
  "ex_refused = shape_response ex_conf
     (build_response ex_get_cfg (ex_reply False 500 ''oops'') 40)"

definition ex_inflight_world :: world where
  "ex_inflight_world = ex_world\<lparr>controllers :=
     [\<lparr>ctl_aborted = False, ctl_listeners = [1]\<rparr>, \<lparr>ctl_aborted = False, ctl_listeners = []\<rparr>]\<rparr>"

definition ex_faulty :: "cfg interceptor" where
  "ex_faulty c = (c, Throws)"

definition ex_meddle :: "cfg interceptor" where
  "ex_meddle c = (c\<lparr>c_timeout := 5\<rparr>, Throws)"

definition ex_copy :: "cfg interceptor" where
  "ex_copy c = (c, Gives (c\<lparr>c_retries := c_timeout c\<rparr>))"

definition ex_slow :: "nat \<Rightarrow> attempt_env" where
  "ex_slow k = \<lparr>ev_cancelled = [], ev_timer_first = True,
     ev_settles = Resolves (ex_reply True 200 ''hi''), ev_clock = 40, ev_random = (1, 1),
     ev_backoff_cancelled = []\<rparr>"

definition ex_json_opts :: opts where
  "ex_json_opts = no_opts\<lparr>op_headers := Some [(''Content-Type'', ''application/json'')],
     op_body := Some (JObj [(''a'', JNum 1)])\<rparr>"

section \<open>Properties of the number arithmetic\<close>

lemma bitlen_0 [simp]: "bitlen 0 = 0"
  by (simp add: bitlen.simps)

lemma bitlen_pos: "0 < n \<Longrightarrow> bitlen n = Suc (bitlen (n div 2))"
  by (subst bitlen.simps) simp

lemma bitlen_upper: "n < 2 ^ bitlen n"
proof (induction n rule: bitlen.induct)
  case (1 n)
  show ?case
  proof (cases "n = 0")
    case True
    then show ?thesis by simp
  next
    case False
    with 1 have "n div 2 < 2 ^ bitlen (n div 2)" by simp
    then have "n < 2 * 2 ^ bitlen (n div 2)" by linarith
    with False show ?thesis by (simp add: bitlen_pos)
  qed
qed

lemma bitlen_lower: "0 < n \<Longrightarrow> 2 ^ (bitlen n - 1) \<le> n"
proof (induction n rule: bitlen.induct)
  case (1 n)
  show ?case
  proof (cases "n div 2 = 0")
    case True
    with 1(2) have "n = 1" by linarith
    then show ?thesis by (simp add: bitlen_pos)
  next
    case False
    with 1 have "2 ^ (bitlen (n div 2) - 1) \<le> n div 2" by simp
    moreover have "0 < bitlen (n div 2)" using False by (simp add: bitlen_pos)
    ultimately have "2 ^ bitlen (n div 2) \<le> 2 * (n div 2)"
      by (cases "bitlen (n div 2)") simp_all
    then have "2 ^ bitlen (n div 2) \<le> n" by linarith
    with 1(2) show ?thesis by (simp add: bitlen_pos)
  qed
qed

lemma bitlen_le: "n < 2 ^ j \<Longrightarrow> bitlen n \<le> j"
proof (rule ccontr)
  assume n: "n < 2 ^ j" and "\<not> bitlen n \<le> j"
  then have j: "j \<le> bitlen n - 1" and "0 < n" by (auto intro: Nat.gr0I)
  then have "(2::nat) ^ j \<le> 2 ^ (bitlen n - 1)" by (intro power_increasing) simp_all
  also have "\<dots> \<le> n" using \<open>0 < n\<close> by (rule bitlen_lower)
  finally show False using n by simp
qed

lemma bitlen_gt: "2 ^ j \<le> n \<Longrightarrow> j < bitlen n"
proof (rule ccontr)
  assume n: "2 ^ j \<le> n" and "\<not> j < bitlen n"
  then have "(2::nat) ^ bitlen n \<le> 2 ^ j" by (intro power_increasing) simp_all
  with n bitlen_upper [of n] show False by linarith
qed

lemma bitlen_eq: "2 ^ j \<le> n \<Longrightarrow> n < 2 ^ Suc j \<Longrightarrow> bitlen n = Suc j"
  using bitlen_gt [of j n] bitlen_le [of n "Suc j"] by simp

lemma bitlen_shift: "0 < n \<Longrightarrow> bitlen (n * 2 ^ j) = bitlen n + j"
proof -
  assume n: "0 < n"
  obtain b where b: "bitlen n = Suc b" using n by (auto simp: bitlen_pos)
  have "2 ^ b \<le> n" using bitlen_lower [OF n] b by simp
  then have "2 ^ b * 2 ^ j \<le> n * 2 ^ j" by simp
  then have lo: "2 ^ (b + j) \<le> n * 2 ^ j" by (simp add: power_add)
  have "n < 2 ^ Suc b" using bitlen_upper [of n] b by simp
  then have "n * 2 ^ j < 2 ^ Suc b * 2 ^ j" by simp
  then have hi: "n * 2 ^ j < 2 ^ Suc (b + j)" by (simp add: power_add)
  from bitlen_eq [OF lo hi] b show ?thesis by simp
qed

lemma bitlen_mult: "bitlen (a * b) \<le> bitlen a + bitlen b"
proof -
  have "a * b < 2 ^ bitlen a * 2 ^ bitlen b"
    using bitlen_upper [of a] bitlen_upper [of b] by (intro mult_strict_mono) simp_all
  then show ?thesis by (intro bitlen_le) (simp add: power_add)
qed

lemma nearest_double_exact: "n < 2 ^ 53 \<Longrightarrow> nearest_double n = n"
  using bitlen_le [of n 53] by (simp add: nearest_double_def)

lemma nearest_double_shift: "nearest_double (n * 2 ^ j) = nearest_double n * 2 ^ j"
proof (cases "n = 0")
  case True
  then show ?thesis by (simp add: nearest_double_def)
next
  case False
  then have n: "0 < n" by simp
  have bl: "bitlen (n * 2 ^ j) = bitlen n + j" using n by (rule bitlen_shift)
  show ?thesis
  proof (cases "bitlen n \<le> 53")
    case small: True
    show ?thesis
    proof (cases "bitlen n + j \<le> 53")
      case True
      with small bl show ?thesis by (simp add: nearest_double_def)
    next
      case False
      define s where "s = bitlen n + j - 53"
      have sj: "s \<le> j" "0 < s" using small False by (simp_all add: s_def)
      then obtain t where t: "j = s + t" using le_Suc_ex by blast
      have q: "n * 2 ^ j div 2 ^ s = n * 2 ^ t" by (simp add: t power_add)
      have r: "n * 2 ^ j mod 2 ^ s = 0" by (simp add: t power_add)
      have "nearest_double (n * 2 ^ j) = n * 2 ^ t * 2 ^ s"
        using False sj unfolding nearest_double_def bl by (simp add: s_def [symmetric] q r Let_def)
      also have "\<dots> = n * 2 ^ j" by (simp add: t power_add)
      finally show ?thesis using small by (simp add: nearest_double_def)
    qed
  next
    case False
    define s where "s = bitlen n - 53"
    have s: "0 < s" "bitlen n + j - 53 = s + j" using False by (simp_all add: s_def)
    have q: "n * 2 ^ j div 2 ^ (s + j) = n div 2 ^ s" by (simp add: power_add)
    have r: "n * 2 ^ j mod 2 ^ (s + j) = (n mod 2 ^ s) * 2 ^ j"
      by (simp add: power_add mult_mod_left [symmetric] mult.commute)
    have h: "(2::nat) ^ (s + j - 1) = 2 ^ (s - 1) * 2 ^ j"
      using s(1) by (simp add: power_add [symmetric])
    define r where "r = n mod 2 ^ s"
    define q where "q = n div 2 ^ s"
    define half where "half = (2::nat) ^ (s - 1)"
    have lt: "r * 2 ^ j < half * 2 ^ j \<longleftrightarrow> r < half"
      and eq: "r * 2 ^ j = half * 2 ^ j \<longleftrightarrow> r = half"
      by simp_all
    have big: "nearest_double (n * 2 ^ j) =
        (if r * 2 ^ j < half * 2 ^ j \<or> (r * 2 ^ j = half * 2 ^ j \<and> even q)
         then q * 2 ^ (s + j) else (q + 1) * 2 ^ (s + j))"
      using False unfolding nearest_double_def bl s(2) Let_def q r h
      by (simp add: r_def q_def half_def)
    have small: "nearest_double n = (if r < half \<or> (r = half \<and> even q) then q * 2 ^ s else (q + 1) * 2 ^ s)"
      using False unfolding nearest_double_def Let_def
      by (simp add: r_def q_def half_def s_def)
    show ?thesis
      unfolding big small lt eq by (simp add: power_add algebra_simps)
  qed
qed


lemma nearest_double_upper:
  assumes "53 < bitlen n"
  shows "nearest_double n \<le> n + 2 ^ (bitlen n - 54)"
proof -
  define s where "s = bitlen n - 53"
  define r where "r = n mod 2 ^ s"
  define q where "q = n div 2 ^ s"
  have s: "0 < s" "bitlen n - 54 = s - 1" using assms by (simp_all add: s_def)
  have n: "n = q * 2 ^ s + r" unfolding q_def r_def by (rule div_mult_mod_eq [symmetric])
  have r: "r < 2 ^ s" by (simp add: r_def)
  have two: "(2::nat) ^ s = 2 ^ (s - 1) + 2 ^ (s - 1)"
    using s(1) by (cases s) simp_all
  have nd: "nearest_double n =
      (if r < 2 ^ (s - 1) \<or> (r = 2 ^ (s - 1) \<and> even q) then q * 2 ^ s else (q + 1) * 2 ^ s)"
    using assms unfolding nearest_double_def Let_def by (simp add: s_def r_def q_def)
  show ?thesis
  proof (cases "r < 2 ^ (s - 1) \<or> (r = 2 ^ (s - 1) \<and> even q)")
    case True
    then have "nearest_double n = q * 2 ^ s" unfolding nd by simp
    then show ?thesis using n by simp
  next
    case False
    then have "nearest_double n = q * 2 ^ s + 2 ^ s" unfolding nd by (simp add: algebra_simps)
    moreover from False have "2 ^ (s - 1) \<le> r" by auto
    ultimately show ?thesis unfolding s(2) using n two by linarith
  qed
qed

lemma double_dvd:
  assumes "nearest_double m = m" "53 < bitlen m"
  shows "2 ^ (bitlen m - 53) dvd m"
proof -
  define s where "s = bitlen m - 53"
  have "nearest_double m = m div 2 ^ s * 2 ^ s \<or> nearest_double m = (m div 2 ^ s + 1) * 2 ^ s"
    using assms(2) unfolding nearest_double_def Let_def by (simp add: s_def)
  with assms(1) have "m = m div 2 ^ s * 2 ^ s \<or> m = (m div 2 ^ s + 1) * 2 ^ s" by simp
  then have "2 ^ s dvd m" by (metis dvd_triv_right)
  then show ?thesis by (simp add: s_def)
qed

lemma below_power_gap:
  assumes "m < 2 ^ k" "2 ^ t dvd m" "t \<le> k"
  shows "m + 2 ^ t \<le> (2::nat) ^ k"
proof -
  from assms(2) obtain a where a: "m = 2 ^ t * a" ..
  from assms(3) obtain u where u: "k = t + u" using le_Suc_ex by blast
  from assms(1) have "2 ^ t * a < 2 ^ t * (2::nat) ^ u" unfolding a u by (simp add: power_add)
  then have "a < 2 ^ u" by simp
  then have "a + 1 \<le> 2 ^ u" by simp
  then have "2 ^ t * (a + 1) \<le> 2 ^ t * (2::nat) ^ u" by (intro mult_left_mono) simp_all
  then show ?thesis unfolding a u by (simp add: power_add algebra_simps)
qed

text \<open>The product of a double in [0, 1) and a positive double rounds below the latter.\<close>

lemma product_below:
  assumes d: "0 < d" and m: "m < 2 ^ k" "nearest_double m = m"
  shows "nearest_double (m * d) < d * 2 ^ k"
proof (cases "d = 2 ^ (bitlen d - 1)")
  case True
  then obtain j where j: "d = 2 ^ j" ..
  have "nearest_double (m * d) = m * 2 ^ j" unfolding j nearest_double_shift m(2) ..
  also have "\<dots> < 2 ^ k * 2 ^ j" using m(1) by simp
  finally show ?thesis by (simp add: j mult.commute)
next
  case False
  with bitlen_lower [OF d] have dgt: "2 ^ (bitlen d - 1) < d" by simp
  show ?thesis
  proof (cases "bitlen (m * d) \<le> 53")
    case True
    then have "nearest_double (m * d) = m * d" by (simp add: nearest_double_def)
    also have "\<dots> < 2 ^ k * d" using m(1) d by simp
    finally show ?thesis by (simp add: mult.commute)
  next
    case big: False
    define s where "s = bitlen (m * d) - 53"
    have s: "0 < s" "bitlen (m * d) - 54 = s - 1" using big by (simp_all add: s_def)
    have sle: "s + 53 \<le> bitlen m + bitlen d" using bitlen_mult [of m d] big by (simp add: s_def)
    have up: "nearest_double (m * d) \<le> m * d + 2 ^ (s - 1)"
      using nearest_double_upper [of "m * d"] big s(2) by simp
    have gap: "\<exists>g. m + g \<le> 2 ^ k \<and> 2 ^ (s - 1) \<le> g * 2 ^ (bitlen d - 1)"
    proof (cases "53 < bitlen m")
      case True
      let ?t = "bitlen m - 53"
      have "bitlen m \<le> k" using m(1) by (rule bitlen_le)
      then have "?t \<le> k" by simp
      with m(1) double_dvd [OF m(2) True] have "m + 2 ^ ?t \<le> 2 ^ k" by (intro below_power_gap)
      moreover have "s - 1 \<le> ?t + (bitlen d - 1)" using sle True by linarith
      then have "(2::nat) ^ (s - 1) \<le> 2 ^ (?t + (bitlen d - 1))" by (intro power_increasing) simp_all
      then have "(2::nat) ^ (s - 1) \<le> 2 ^ ?t * 2 ^ (bitlen d - 1)" by (simp add: power_add)
      ultimately show ?thesis by blast
    next
      case False
      have "m + 1 \<le> 2 ^ k" using m(1) by simp
      moreover have "s - 1 \<le> bitlen d - 1" using sle False by linarith
      then have "(2::nat) ^ (s - 1) \<le> 1 * 2 ^ (bitlen d - 1)" by (simp add: power_increasing)
      ultimately show ?thesis by blast
    qed
    then obtain g where g: "m + g \<le> 2 ^ k" "2 ^ (s - 1) \<le> g * 2 ^ (bitlen d - 1)" by blast
    from g(2) have "0 < g" by (intro Nat.gr0I) simp
    with dgt have "g * 2 ^ (bitlen d - 1) < g * d" by simp
    with g(2) have "2 ^ (s - 1) < g * d" by linarith
    with up have "nearest_double (m * d) < m * d + g * d" by linarith
    also have "\<dots> = (m + g) * d" by (simp add: algebra_simps)
    also have "\<dots> \<le> 2 ^ k * d" using g(1) by (intro mult_right_mono) simp_all
    finally show ?thesis by (simp add: mult.commute)
  qed
qed

lemma js_number_nonneg: "0 \<le> x \<Longrightarrow> js_number x = int (nearest_double (nat x))"
  by (simp add: js_number_def)

lemma js_number_exact: "0 \<le> x \<Longrightarrow> x < 2 ^ 53 \<Longrightarrow> js_number x = x"
proof -
  assume x: "0 \<le> x" "x < 2 ^ 53"
  then have "nat x < 2 ^ 53" by (simp add: nat_less_iff)
  then have "nearest_double (nat x) = nat x" by (rule nearest_double_exact)
  with x(1) show ?thesis by (simp add: js_number_nonneg)
qed

lemma js_number_shift:
  assumes "0 \<le> d" "js_number d = d"
  shows "js_number (d * 2 ^ i) = d * 2 ^ i"
proof -
  from assms have d: "int (nearest_double (nat d)) = d" by (simp add: js_number_nonneg)
  have "nat (d * 2 ^ i) = nat d * 2 ^ i"
    using assms(1) by (simp add: nat_mult_distrib nat_power_eq)
  then have "js_number (d * 2 ^ i) = int (nearest_double (nat d * 2 ^ i))"
    using assms(1) by (simp add: js_number_nonneg)
  also have "\<dots> = int (nearest_double (nat d)) * 2 ^ i"
    by (simp add: nearest_double_shift)
  finally show ?thesis using d by simp
qed

lemma round_down_dvd:
  assumes "2 ^ s dvd y" "y \<le> x"
  shows "y \<le> x div 2 ^ s * (2::nat) ^ s"
proof -
  from assms(1) obtain a where a: "y = 2 ^ s * a" ..
  with assms(2) have "a * 2 ^ s \<le> x" by (simp add: mult.commute)
  then have "a \<le> x div 2 ^ s" by (simp add: less_eq_div_iff_mult_less_eq)
  then have "a * 2 ^ s \<le> x div 2 ^ s * 2 ^ s" by (rule mult_right_mono) simp
  then show ?thesis by (simp add: a mult.commute)
qed

text \<open>Rounding does not go below a double that the exact value is not below.\<close>

lemma nearest_double_ge:
  assumes y: "nearest_double y = y" and le: "y \<le> x"
  shows "y \<le> nearest_double x"
proof (cases "bitlen x \<le> 53")
  case True
  with le show ?thesis by (simp add: nearest_double_def)
next
  case False
  define s where "s = bitlen x - 53"
  have down: "x div 2 ^ s * 2 ^ s \<le> nearest_double x"
    using False unfolding nearest_double_def Let_def by (simp add: s_def)
  have "bitlen y \<le> bitlen x"
    using le bitlen_upper [of x] by (intro bitlen_le) simp
  then consider "bitlen y = bitlen x" | "bitlen y < bitlen x" by linarith
  then have "y \<le> x div 2 ^ s * 2 ^ s"
  proof cases
    case 1
    with False y have "2 ^ s dvd y" using double_dvd [of y] by (simp add: s_def)
    then show ?thesis using le by (rule round_down_dvd)
  next
    case 2
    have xpos: "0 < x" using False by (intro Nat.gr0I) simp
    have "y < 2 ^ bitlen y" by (rule bitlen_upper)
    also have "(2::nat) ^ bitlen y \<le> 2 ^ (bitlen x - 1)"
      using 2 by (intro power_increasing) simp_all
    finally have yl: "y \<le> 2 ^ (bitlen x - 1)" by simp
    have "s \<le> bitlen x - 1" using False by (simp add: s_def)
    then have "(2::nat) ^ s dvd 2 ^ (bitlen x - 1)" by (rule le_imp_power_dvd)
    moreover have "2 ^ (bitlen x - 1) \<le> x" using xpos by (rule bitlen_lower)
    ultimately have "2 ^ (bitlen x - 1) \<le> x div 2 ^ s * 2 ^ s" by (rule round_down_dvd)
    with yl show ?thesis by linarith
  qed
  with down show ?thesis by linarith
qed

lemma js_number_ge:
  assumes "0 \<le> y" "js_number y = y" "y \<le> x"
  shows "y \<le> js_number x"
proof -
  from assms(1,3) have x: "0 \<le> x" by simp
  from assms(1,2) have "nearest_double (nat y) = nat y"
    by (simp add: js_number_nonneg)
  moreover have "nat y \<le> nat x" using assms(3) by simp
  ultimately have "nat y \<le> nearest_double (nat x)" by (rule nearest_double_ge)
  with assms(1) x show ?thesis by (simp add: js_number_nonneg)
qed

section \<open>Properties of abort propagation\<close>

lemma length_fire [simp]: "length (fire ws st) = length st"
  by (induction ws st rule: fire.induct) (simp_all add: fire.simps)

lemma fire_listeners [simp]: "ctl_listeners (fire ws st ! i) = ctl_listeners (st ! i)"
proof (induction ws st rule: fire.induct)
  case (1 st)
  then show ?case by (simp add: fire.simps)
next
  case (2 c cs st)
  then show ?case
    by (cases "i = c") (simp_all add: fire.simps)
qed

lemma fire_mono: "i < length st \<Longrightarrow> ctl_aborted (st ! i) \<Longrightarrow> ctl_aborted (fire ws st ! i)"
proof (induction ws st rule: fire.induct)
  case (1 st)
  then show ?case by (simp add: fire.simps)
next
  case (2 c cs st)
  then show ?case
    by (cases "i = c") (simp_all add: fire.simps)
qed

lemma fire_worklist:
  "w \<in> set ws \<Longrightarrow> w < length st \<Longrightarrow> ctl_aborted (fire ws st ! w)"
proof (induction ws st rule: fire.induct)
  case (1 st)
  then show ?case by simp
next
  case (2 c cs st)
  show ?case
  proof (cases "c < length st \<and> \<not> ctl_aborted (st ! c)")
    case True
    let ?st = "st[c := (st ! c)\<lparr>ctl_aborted := True\<rparr>]"
    have eq: "fire (c # cs) st = fire (ctl_listeners (st ! c) @ cs) ?st"
      using True by (simp add: fire.simps)
    show ?thesis
    proof (cases "w = c")
      case True
      with \<open>c < length st \<and> \<not> ctl_aborted (st ! c)\<close> have "ctl_aborted (?st ! w)" by simp
      with 2(4) show ?thesis unfolding eq by (intro fire_mono) simp_all
    next
      case False
      with 2(3) have "w \<in> set (ctl_listeners (st ! c) @ cs)" by simp
      with 2(1) [OF True] 2(4) show ?thesis unfolding eq by simp
    qed
  next
    case False
    have eq: "fire (c # cs) st = fire cs st"
      using False by (subst fire.simps) auto
    show ?thesis
    proof (cases "w = c")
      case True
      with False 2(4) have "ctl_aborted (st ! w)" by simp
      with 2(4) show ?thesis unfolding eq by (intro fire_mono)
    next
      case nc: False
      with 2(3) have "w \<in> set cs" by simp
      with 2(2) [OF False] 2(4) show ?thesis unfolding eq by simp
    qed
  qed
qed

text \<open>A listener of a signal is aborted whenever the signal is, if that held before.\<close>

lemma fire_listener:
  "sg < length st \<Longrightarrow> t < length st \<Longrightarrow> t \<in> set (ctl_listeners (st ! sg)) \<Longrightarrow>
   (ctl_aborted (st ! sg) \<longrightarrow> ctl_aborted (st ! t)) \<Longrightarrow>
   ctl_aborted (fire ws st ! sg) \<longrightarrow> ctl_aborted (fire ws st ! t)"
proof (induction ws st rule: fire.induct)
  case (1 st)
  then show ?case by (simp add: fire.simps)
next
  case (2 c cs st)
  show ?case
  proof (cases "c < length st \<and> \<not> ctl_aborted (st ! c)")
    case True
    let ?st = "st[c := (st ! c)\<lparr>ctl_aborted := True\<rparr>]"
    have eq: "fire (c # cs) st = fire (ctl_listeners (st ! c) @ cs) ?st"
      using True by (simp add: fire.simps)
    show ?thesis
    proof (cases "c = sg")
      case True
      with 2(5) have "t \<in> set (ctl_listeners (st ! c) @ cs)" by simp
      with 2(4) have "ctl_aborted (fire (ctl_listeners (st ! c) @ cs) ?st ! t)"
        by (intro fire_worklist) simp_all
      then show ?thesis unfolding eq by simp
    next
      case False
      have "ctl_aborted (?st ! sg) \<longrightarrow> ctl_aborted (?st ! t)"
        using False 2(3,4,6) by (cases "t = c") simp_all
      moreover have "t \<in> set (ctl_listeners (?st ! sg))"
        using False 2(5) by simp
      ultimately show ?thesis
        unfolding eq using 2(1) [OF True] 2(3,4) by simp
    qed
  next
    case False
    have eq: "fire (c # cs) st = fire cs st"
      using False by (subst fire.simps) auto
    show ?thesis unfolding eq using 2(2) [OF False] 2(3-6) by simp
  qed
qed

lemma length_cancel [simp]: "length (cancel c st) = length st"
  by (simp add: cancel_def abort_def)

lemma cancel_listeners [simp]: "ctl_listeners (cancel c st ! i) = ctl_listeners (st ! i)"
  by (simp add: cancel_def abort_def)

lemma length_cancels [simp]: "length (fold cancel cs st) = length st"
  by (induction cs arbitrary: st) simp_all

lemma cancels_listeners [simp]: "ctl_listeners (fold cancel cs st ! i) = ctl_listeners (st ! i)"
  by (induction cs arbitrary: st) simp_all

lemma cancels_mono:
  "i < length st \<Longrightarrow> ctl_aborted (st ! i) \<Longrightarrow> ctl_aborted (fold cancel cs st ! i)"
  by (induction cs arbitrary: st) (simp_all add: cancel_def abort_def fire_mono)

lemma cancels_hit:
  "c \<in> set cs \<Longrightarrow> c < length st \<Longrightarrow> ctl_aborted (fold cancel cs st ! c)"
proof (induction cs arbitrary: st)
  case Nil
  then show ?case by simp
next
  case (Cons a cs)
  show ?case
  proof (cases "a = c")
    case True
    have "ctl_aborted (cancel c st ! c)"
      using Cons.prems(2) by (simp add: cancel_def abort_def fire_worklist)
    with Cons.prems(2) True show ?thesis by (simp add: cancels_mono)
  next
    case False
    with Cons show ?thesis by simp
  qed
qed

lemma cancels_listener:
  "sg < length st \<Longrightarrow> t < length st \<Longrightarrow> t \<in> set (ctl_listeners (st ! sg)) \<Longrightarrow>
   (ctl_aborted (st ! sg) \<longrightarrow> ctl_aborted (st ! t)) \<Longrightarrow>
   ctl_aborted (fold cancel cs st ! sg) \<longrightarrow> ctl_aborted (fold cancel cs st ! t)"
proof (induction cs arbitrary: st)
  case Nil
  then show ?case by simp
next
  case (Cons a cs)
  have "ctl_aborted (cancel a st ! sg) \<longrightarrow> ctl_aborted (cancel a st ! t)"
    unfolding cancel_def abort_def using Cons.prems by (intro fire_listener)
  with Cons.prems(1-3) show ?case
    by (simp add: Cons.IH)
qed

section \<open>Properties of the retry executor\<close>

lemma length_addEventListener [simp]: "length (addEventListener st sg t) = length st"
  by (simp add: addEventListener_def)

lemma aborted_addEventListener [simp]:
  "ctl_aborted (addEventListener st sg t ! i) = ctl_aborted (st ! i)"
  by (cases "i = sg") (simp_all add: addEventListener_def)

lemma is_aborted_addEventListener [simp]:
  "is_aborted (addEventListener st sg t) c = is_aborted st c"
  by (simp add: is_aborted_def)

lemma fresh_not_aborted [simp]:
  "\<not> is_aborted (st @ [\<lparr>ctl_aborted = False, ctl_listeners = []\<rparr>]) (length st)"
  by (simp add: is_aborted_def)

lemma transport_attempt_calls:
  "transport_attempt rc e s = (out, a, s1) \<Longrightarrow>
   fs_calls s1 = fs_calls s @ [(rc_url rc, (rc_options rc)\<lparr>o_signal := Some (length (fs_store s))\<rparr>)]
   \<and> fs_delays s1 = fs_delays s"
  by (auto simp: transport_attempt_def new_AbortController_def Let_def)

lemma sleep_fields [simp]:
  "fs_calls (sleep rc e k s) = fs_calls s"
  "fs_delays (sleep rc e k s) =
     fs_delays s @ [js_add (backoff (rc_retryDelay rc) k) (jitter (rc_retryDelay rc) (ev_random e))]"
  by (simp_all add: sleep_def)

text \<open>The five ways one pass of the loop ends.\<close>

lemma loop_abort:
  "transport_attempt rc (env (Suc n)) s = (Rejects name msg, a, s1) \<Longrightarrow> a \<Longrightarrow> name = ''AbortError'' \<Longrightarrow>
   fetchWithRetry_loop rc env start n s = (Threw (JsError name msg), s1)"
  by (subst fetchWithRetry_loop.simps) simp

lemma loop_reject_retry:
  "transport_attempt rc (env (Suc n)) s = (Rejects name msg, a, s1) \<Longrightarrow>
   \<not> (a \<and> name = ''AbortError'') \<Longrightarrow> int (Suc n) \<le> rc_retries rc \<Longrightarrow>
   fetchWithRetry_loop rc env start n s =
     fetchWithRetry_loop rc env start (Suc n) (sleep rc (env (Suc n)) (Suc n) s1)"
  by (subst fetchWithRetry_loop.simps) auto

lemma loop_reject_final:
  "transport_attempt rc (env (Suc n)) s = (Rejects name msg, a, s1) \<Longrightarrow>
   \<not> int (Suc n) \<le> rc_retries rc \<Longrightarrow>
   fetchWithRetry_loop rc env start n s = (Threw (JsError name msg), s1)"
  by (subst fetchWithRetry_loop.simps) simp

lemma loop_status_retry:
  "transport_attempt rc (env (Suc n)) s = (Resolves res, a, s1) \<Longrightarrow>
   \<not> res_ok res \<Longrightarrow> int (Suc n) \<le> rc_retries rc \<Longrightarrow> res_status res \<in> set (retryOn rc) \<Longrightarrow>
   fetchWithRetry_loop rc env start n s =
     fetchWithRetry_loop rc env start (Suc n) (sleep rc (env (Suc n)) (Suc n) s1)"
  by (subst fetchWithRetry_loop.simps) simp

lemma loop_return:
  "transport_attempt rc (env (Suc n)) s = (Resolves res, a, s1) \<Longrightarrow>
   \<not> (\<not> res_ok res \<and> int (Suc n) \<le> rc_retries rc \<and> res_status res \<in> set (retryOn rc)) \<Longrightarrow>
   fetchWithRetry_loop rc env start n s = (Returned res (ev_clock (env (Suc n)) - start), s1)"
  by (subst fetchWithRetry_loop.simps) auto

text \<open>Every pass either ends the loop after one more call, or sleeps and goes on.\<close>

lemma loop_cases:
  obtains (stop) out s1 a r where
      "transport_attempt rc (env (Suc n)) s = (out, a, s1)"
      "fetchWithRetry_loop rc env start n s = (r, s1)"
  | (again) out s1 a where
      "transport_attempt rc (env (Suc n)) s = (out, a, s1)"
      "int (Suc n) \<le> rc_retries rc"
      "fetchWithRetry_loop rc env start n s =
         fetchWithRetry_loop rc env start (Suc n) (sleep rc (env (Suc n)) (Suc n) s1)"
proof -
  obtain out a s1 where att: "transport_attempt rc (env (Suc n)) s = (out, a, s1)"
    by (cases "transport_attempt rc (env (Suc n)) s") auto
  show ?thesis
  proof (cases out)
    case (Resolves res)
    show ?thesis
    proof (cases "\<not> res_ok res \<and> int (Suc n) \<le> rc_retries rc \<and> res_status res \<in> set (retryOn rc)")
      case True
      with att Resolves show ?thesis
        by (intro again [of out a s1]) (simp_all add: loop_status_retry)
    next
      case False
      with att Resolves show ?thesis
        by (intro stop [of out a s1]) (simp_all add: loop_return)
    qed
  next
    case (Rejects name msg)
    show ?thesis
    proof (cases "a \<and> name = ''AbortError''")
      case True
      with att Rejects show ?thesis
        by (intro stop [of out a s1]) (simp_all add: loop_abort)
    next
      case False
      show ?thesis
      proof (cases "int (Suc n) \<le> rc_retries rc")
        case True
        from att Rejects have "fetchWithRetry_loop rc env start n s =
           fetchWithRetry_loop rc env start (Suc n) (sleep rc (env (Suc n)) (Suc n) s1)"
          using False True by (intro loop_reject_retry) simp_all
        with att True show ?thesis by (intro again [of out a s1])
      next
        case nomore: False
        from att Rejects have "fetchWithRetry_loop rc env start n s = (Threw (JsError name msg), s1)"
          using nomore by (intro loop_reject_final) simp_all
        with att show ?thesis by (intro stop [of out a s1])
      qed
    qed
  qed
qed

lemma loop_calls_bound:
  "length (fs_calls s) < length (fs_calls (snd (fetchWithRetry_loop rc env start n s))) \<and>
   length (fs_calls (snd (fetchWithRetry_loop rc env start n s)))
     \<le> length (fs_calls s) + (nat (rc_retries rc) - n) + 1"
proof (induction "nat (rc_retries rc) - n" arbitrary: n s)
  case 0
  show ?case
  proof (cases rule: loop_cases [of rc env n s start])
    case (stop out s1 a r)
    then show ?thesis using transport_attempt_calls [OF stop(1)] by simp
  next
    case (again out s1 a)
    with 0 show ?thesis by linarith
  qed
next
  case (Suc k)
  show ?case
  proof (cases rule: loop_cases [of rc env n s start])
    case (stop out s1 a r)
    then show ?thesis using transport_attempt_calls [OF stop(1)] by simp
  next
    case (again out s1 a)
    let ?s2 = "sleep rc (env (Suc n)) (Suc n) s1"
    let ?r = "fetchWithRetry_loop rc env start (Suc n) ?s2"
    from Suc(2) have k: "k = nat (rc_retries rc) - Suc n" by simp
    have len: "length (fs_calls ?s2) = Suc (length (fs_calls s))"
      using transport_attempt_calls [OF again(1)] by simp
    from Suc(1) [OF k, of ?s2] len k
    have "Suc (length (fs_calls s)) < length (fs_calls (snd ?r))"
      and "length (fs_calls (snd ?r)) \<le> Suc (length (fs_calls s)) + k + 1"
      by simp_all
    moreover have "nat (rc_retries rc) - n = Suc k" using Suc(2) by simp
    ultimately show ?thesis unfolding again(3) by linarith
  qed
qed


lemma attempt_not_aborted:
  "ev_cancelled e = [] \<Longrightarrow> \<not> ev_timer_first e \<Longrightarrow>
   \<exists>s1. transport_attempt rc e s = (ev_settles e, False, s1)"
  by (simp add: transport_attempt_def new_AbortController_def Let_def split: option.split)

lemma attempt_aborted_outcome:
  "transport_attempt rc e s = (out, True, s1) \<Longrightarrow>
   out = Rejects ''AbortError'' ''The operation was aborted.''"
  by (auto simp: transport_attempt_def new_AbortController_def Let_def split: option.splits if_splits)

lemma attempt_timer:
  "0 < rc_timeout rc \<Longrightarrow> ev_timer_first e \<Longrightarrow> fst (snd (transport_attempt rc e s))"
  by (simp add: transport_attempt_def new_AbortController_def Let_def is_aborted_def
      abort_def fire_worklist split: option.split)

lemma attempt_cancelled:
  assumes sg: "o_signal (rc_options rc) = Some sg" "sg < length (fs_store s)"
    and live: "\<not> ctl_aborted (fs_store s ! sg)"
    and hit: "sg \<in> set (ev_cancelled e)"
  shows "fst (snd (transport_attempt rc e s))"
proof -
  let ?st = "fs_store s"
  let ?ac = "length ?st"
  let ?st2 = "addEventListener (?st @ [\<lparr>ctl_aborted = False, ctl_listeners = []\<rparr>]) sg ?ac"
  let ?st3 = "fold cancel (ev_cancelled e) ?st2"
  have l: "?ac \<in> set (ctl_listeners (?st2 ! sg))"
    using sg(2) by (simp add: addEventListener_def)
  have n: "\<not> ctl_aborted (?st2 ! sg)"
    using sg(2) live by (simp add: nth_append)
  have "ctl_aborted (?st3 ! sg)"
    using hit sg(2) by (intro cancels_hit) simp_all
  moreover have "ctl_aborted (?st3 ! sg) \<longrightarrow> ctl_aborted (?st3 ! ?ac)"
    using sg(2) l n by (intro cancels_listener) simp_all
  ultimately have a: "is_aborted ?st3 ?ac"
    by (simp add: is_aborted_def)
  then have "is_aborted (abort ?st3 ?ac) ?ac"
    by (simp add: is_aborted_def abort_def fire_mono)
  with a show ?thesis
    using sg(1) by (simp add: transport_attempt_def new_AbortController_def Let_def)
qed

lemma loop_persistent_failure:
  assumes fail: "\<And>k. ev_cancelled (env k) = [] \<and> \<not> ev_timer_first (env k) \<and>
                   ev_settles (env k) = Rejects (name k) (msg k)"
  shows "n \<le> nat (rc_retries rc) \<Longrightarrow>
    \<exists>s'. fetchWithRetry_loop rc env start n s =
            (Threw (JsError (name (Suc (nat (rc_retries rc)))) (msg (Suc (nat (rc_retries rc))))), s') \<and>
          length (fs_calls s') = length (fs_calls s) + (nat (rc_retries rc) - n) + 1 \<and>
          length (fs_delays s') = length (fs_delays s) + (nat (rc_retries rc) - n)"
proof (induction "nat (rc_retries rc) - n" arbitrary: n s)
  case 0
  then have n: "n = nat (rc_retries rc)" by simp
  from fail [of "Suc n"] obtain s1 where
    att: "transport_attempt rc (env (Suc n)) s = (Rejects (name (Suc n)) (msg (Suc n)), False, s1)"
    using attempt_not_aborted [of "env (Suc n)" rc s] by auto
  have "\<not> int (Suc n) \<le> rc_retries rc" using n by linarith
  then have "fetchWithRetry_loop rc env start n s =
      (Threw (JsError (name (Suc n)) (msg (Suc n))), s1)"
    using loop_reject_final [where env = env and n = n, OF att] by simp
  with transport_attempt_calls [OF att] n show ?case by simp
next
  case (Suc k)
  from fail [of "Suc n"] obtain s1 where
    att: "transport_attempt rc (env (Suc n)) s = (Rejects (name (Suc n)) (msg (Suc n)), False, s1)"
    using attempt_not_aborted [of "env (Suc n)" rc s] by auto
  let ?s2 = "sleep rc (env (Suc n)) (Suc n) s1"
  have le: "int (Suc n) \<le> rc_retries rc" using Suc(2) by linarith
  have eq: "fetchWithRetry_loop rc env start n s = fetchWithRetry_loop rc env start (Suc n) ?s2"
    using loop_reject_retry [where env = env and n = n, OF att _ le] by simp
  have k: "k = nat (rc_retries rc) - Suc n" and n': "Suc n \<le> nat (rc_retries rc)"
    using Suc(2) by simp_all
  from Suc(1) [OF k n', of ?s2] obtain s' where
    r: "fetchWithRetry_loop rc env start (Suc n) ?s2 =
          (Threw (JsError (name (Suc (nat (rc_retries rc)))) (msg (Suc (nat (rc_retries rc))))), s')"
    and c: "length (fs_calls s') = length (fs_calls ?s2) + (nat (rc_retries rc) - Suc n) + 1"
    and d: "length (fs_delays s') = length (fs_delays ?s2) + (nat (rc_retries rc) - Suc n)"
    by blast
  have "length (fs_calls ?s2) = length (fs_calls s) + 1"
    and "length (fs_delays ?s2) = length (fs_delays s) + 1"
    using transport_attempt_calls [OF att] by simp_all
  with c d n' have "length (fs_calls s') = length (fs_calls s) + (nat (rc_retries rc) - n) + 1"
    and "length (fs_delays s') = length (fs_delays s) + (nat (rc_retries rc) - n)"
    by linarith+
  with r show ?case unfolding eq by blast
qed

text \<open>
  Claim C2. When every transport attempt of a request fails with a network error (the
  attempt's controller is not aborted and the call rejects), \<^verbatim>\<open>fetchWithRetry\<close> configured
  with \<^verbatim>\<open>retries = R\<close> makes exactly \<^verbatim>\<open>R + 1\<close> transport calls (one call when \<^verbatim>\<open>R\<close> is
  negative, written \<^verbatim>\<open>max 0 R + 1\<close>) and then throws the error of the last attempt. In
  every execution, whatever the attempts do, it makes at least one and at most
  \<^verbatim>\<open>max 0 R + 1\<close> transport calls.
\<close>

theorem retry_attempts:
  "((\<forall>k. ev_cancelled (env k) = [] \<and> \<not> ev_timer_first (env k) \<and>
         ev_settles (env k) = Rejects (name k) (msg k)) \<longrightarrow>
      (\<exists>s. fetchWithRetry rc env start st =
              (Threw (JsError (name (nat (rc_retries rc) + 1)) (msg (nat (rc_retries rc) + 1))), s) \<and>
            int (length (fs_calls s)) = max 0 (rc_retries rc) + 1))
   \<and> 1 \<le> length (fs_calls (snd (fetchWithRetry rc env start st)))
   \<and> int (length (fs_calls (snd (fetchWithRetry rc env start st)))) \<le> max 0 (rc_retries rc) + 1"
proof (intro conjI impI)
  assume "\<forall>k. ev_cancelled (env k) = [] \<and> \<not> ev_timer_first (env k) \<and>
              ev_settles (env k) = Rejects (name k) (msg k)"
  then have fail: "\<And>k. ev_cancelled (env k) = [] \<and> \<not> ev_timer_first (env k) \<and>
                   ev_settles (env k) = Rejects (name k) (msg k)"
    by blast
  from loop_persistent_failure [of env name msg 0 rc start "\<lparr>fs_store = st, fs_calls = [], fs_delays = []\<rparr>", OF fail]
  show "\<exists>s. fetchWithRetry rc env start st =
              (Threw (JsError (name (nat (rc_retries rc) + 1)) (msg (nat (rc_retries rc) + 1))), s) \<and>
            int (length (fs_calls s)) = max 0 (rc_retries rc) + 1"
    unfolding fetchWithRetry_def by auto
next
  from loop_calls_bound [of "\<lparr>fs_store = st, fs_calls = [], fs_delays = []\<rparr>" rc env start 0]
  have "0 < length (fs_calls (snd (fetchWithRetry rc env start st)))"
    and "length (fs_calls (snd (fetchWithRetry rc env start st))) \<le> nat (rc_retries rc) + 1"
    unfolding fetchWithRetry_def by simp_all
  then show "1 \<le> length (fs_calls (snd (fetchWithRetry rc env start st)))"
    and "int (length (fs_calls (snd (fetchWithRetry rc env start st)))) \<le> max 0 (rc_retries rc) + 1"
    by linarith+
qed


theorem retry_attempts_witness:
  "\<exists>s. fetchWithRetry (ex_retry 2 0) ex_offline 0 [] =
         (Threw (JsError ''TypeError'' ''Failed to fetch''), s) \<and> length (fs_calls s) = 3"
  using retry_attempts [of ex_offline "\<lambda>k. ''TypeError''" "\<lambda>k. ''Failed to fetch''" "ex_retry 2 0" 0 "[]"]
  by (simp add: ex_offline_def ex_retry_def)

text \<open>
  Claim C3, as the code has it. An attempt whose controller \<^verbatim>\<open>ac\<close> is aborted when the
  transport call settles ends \<^verbatim>\<open>fetchWithRetry\<close> at once with the AbortError: one more
  transport call, no backoff sleep, no further attempt, however many retries remain. The
  timeout timer (a positive \<^verbatim>\<open>timeout\<close> that elapses first) aborts \<^verbatim>\<open>ac\<close>, and so does the
  cancellation, while the call is pending, of a signal in \<^verbatim>\<open>options.signal\<close> that was not
  yet aborted when the attempt began: a timeout is not retried either.
\<close>

theorem abort_not_retried:
  "(transport_attempt rc (env (Suc n)) s = (out, True, s1) \<longrightarrow>
      fetchWithRetry_loop rc env start n s =
        (Threw (JsError ''AbortError'' ''The operation was aborted.''), s1) \<and>
      fs_delays s1 = fs_delays s \<and> length (fs_calls s1) = length (fs_calls s) + 1)
   \<and> (0 < rc_timeout rc \<and> ev_timer_first e \<longrightarrow> fst (snd (transport_attempt rc e s)))
   \<and> (o_signal (rc_options rc) = Some sg \<and> sg < length (fs_store s) \<and>
        \<not> ctl_aborted (fs_store s ! sg) \<and> sg \<in> set (ev_cancelled e) \<longrightarrow>
        fst (snd (transport_attempt rc e s)))"
proof (intro conjI impI)
  assume att: "transport_attempt rc (env (Suc n)) s = (out, True, s1)"
  then have out: "out = Rejects ''AbortError'' ''The operation was aborted.''"
    by (rule attempt_aborted_outcome)
  show "fetchWithRetry_loop rc env start n s =
        (Threw (JsError ''AbortError'' ''The operation was aborted.''), s1)"
    using loop_abort [where env = env and n = n, OF att [unfolded out]] by simp
  show "fs_delays s1 = fs_delays s" "length (fs_calls s1) = length (fs_calls s) + 1"
    using transport_attempt_calls [OF att] by simp_all
next
  assume "0 < rc_timeout rc \<and> ev_timer_first e"
  then show "fst (snd (transport_attempt rc e s))"
    by (simp add: attempt_timer)
next
  assume "o_signal (rc_options rc) = Some sg \<and> sg < length (fs_store s) \<and>
        \<not> ctl_aborted (fs_store s ! sg) \<and> sg \<in> set (ev_cancelled e)"
  then show "fst (snd (transport_attempt rc e s))"
    using attempt_cancelled [of rc sg s e] by simp
qed

lemma ex_hangs_attempt:
  "transport_attempt (ex_retry 3 50) (ex_hangs k) \<lparr>fs_store = [], fs_calls = [], fs_delays = []\<rparr> =
     (Rejects ''AbortError'' ''The operation was aborted.'', True,
      \<lparr>fs_store = [\<lparr>ctl_aborted = True, ctl_listeners = []\<rparr>],
       fs_calls = [(''https://api.example.com/posts'', ex_options\<lparr>o_signal := Some 0\<rparr>)],
       fs_delays = []\<rparr>)"
  by (simp add: transport_attempt_def ex_retry_def ex_hangs_def ex_options_def
      new_AbortController_def abort_def fire.simps is_aborted_def)

text \<open>
  Claim C3 as stated fails: with \<^verbatim>\<open>timeout = 50\<close>, three retries allowed and a transport
  that never answers in time, the timer aborts the first attempt, and the executor throws
  the AbortError after that single call, without any backoff.
\<close>

theorem timeout_retried_counterexample:
  "0 < rc_timeout (ex_retry 3 50) \<and> ev_timer_first (ex_hangs 1) \<and> 1 \<le> rc_retries (ex_retry 3 50) \<and>
   fst (fetchWithRetry (ex_retry 3 50) ex_hangs 0 []) =
     Threw (JsError ''AbortError'' ''The operation was aborted.'') \<and>
   length (fs_calls (snd (fetchWithRetry (ex_retry 3 50) ex_hangs 0 []))) = 1 \<and>
   fs_delays (snd (fetchWithRetry (ex_retry 3 50) ex_hangs 0 [])) = []"
  using loop_abort [where env = ex_hangs and n = 0, OF ex_hangs_attempt [of "Suc 0"], of 0]
  by (simp add: fetchWithRetry_def) (simp add: ex_retry_def ex_hangs_def)

theorem abort_not_retried_witness:
  "fetchWithRetry_loop (ex_retry 3 50) ex_hangs 0 0 \<lparr>fs_store = [], fs_calls = [], fs_delays = []\<rparr> =
     (Threw (JsError ''AbortError'' ''The operation was aborted.''),
      \<lparr>fs_store = [\<lparr>ctl_aborted = True, ctl_listeners = []\<rparr>],
       fs_calls = [(''https://api.example.com/posts'', ex_options\<lparr>o_signal := Some 0\<rparr>)],
       fs_delays = []\<rparr>)
   \<and> fst (snd (transport_attempt (ex_retry 3 50) (ex_hangs 1)
               \<lparr>fs_store = [], fs_calls = [], fs_delays = []\<rparr>))
   \<and> fst (snd (transport_attempt ((ex_retry 3 0)\<lparr>rc_options := ex_options\<lparr>o_signal := Some 0\<rparr>\<rparr>)
               (ex_group_cancel 1)
               \<lparr>fs_store = [\<lparr>ctl_aborted = False, ctl_listeners = []\<rparr>], fs_calls = [],
                fs_delays = []\<rparr>))"
  using abort_not_retried [of "ex_retry 3 50" ex_hangs 0
      "\<lparr>fs_store = [], fs_calls = [], fs_delays = []\<rparr>"
      "Rejects ''AbortError'' ''The operation was aborted.''"
      "\<lparr>fs_store = [\<lparr>ctl_aborted = True, ctl_listeners = []\<rparr>],
       fs_calls = [(''https://api.example.com/posts'', ex_options\<lparr>o_signal := Some 0\<rparr>)],
       fs_delays = []\<rparr>" 0 "ex_hangs 1" 0]
    abort_not_retried [where rc = "(ex_retry 3 0)\<lparr>rc_options := ex_options\<lparr>o_signal := Some 0\<rparr>\<rparr>"
      and sg = 0 and e = "ex_group_cancel 1"
      and s = "\<lparr>fs_store = [\<lparr>ctl_aborted = False, ctl_listeners = []\<rparr>], fs_calls = [],
                fs_delays = []\<rparr>"]
    ex_hangs_attempt [of "Suc 0"]
  by (simp add: ex_retry_def ex_hangs_def ex_group_cancel_def)

lemma loop_delays:
  "\<exists>k. fs_delays (snd (fetchWithRetry_loop rc env start n s)) =
         fs_delays s @ map (\<lambda>j. js_add (backoff (rc_retryDelay rc) j)
                                     (jitter (rc_retryDelay rc) (ev_random (env j))))
                          [Suc n ..< Suc n + k] \<and>
       length (fs_calls (snd (fetchWithRetry_loop rc env start n s))) = length (fs_calls s) + k + 1"
proof (induction "nat (rc_retries rc) - n" arbitrary: n s)
  case 0
  show ?case
  proof (cases rule: loop_cases [of rc env n s start])
    case (stop out s1 a r)
    then show ?thesis using transport_attempt_calls [OF stop(1)] by (intro exI [of _ 0]) simp
  next
    case (again out s1 a)
    with 0 show ?thesis by linarith
  qed
next
  case (Suc m)
  show ?case
  proof (cases rule: loop_cases [of rc env n s start])
    case (stop out s1 a r)
    then show ?thesis using transport_attempt_calls [OF stop(1)] by (intro exI [of _ 0]) simp
  next
    case (again out s1 a)
    let ?d = "\<lambda>j. js_add (backoff (rc_retryDelay rc) j) (jitter (rc_retryDelay rc) (ev_random (env j)))"
    let ?s2 = "sleep rc (env (Suc n)) (Suc n) s1"
    from Suc(2) have m: "m = nat (rc_retries rc) - Suc n" by simp
    from Suc(1) [OF m, of ?s2] obtain k where
      d: "fs_delays (snd (fetchWithRetry_loop rc env start (Suc n) ?s2)) =
            fs_delays ?s2 @ map ?d [Suc (Suc n) ..< Suc (Suc n) + k]"
      and c: "length (fs_calls (snd (fetchWithRetry_loop rc env start (Suc n) ?s2))) =
            length (fs_calls ?s2) + k + 1"
      by blast
    have "fs_delays ?s2 = fs_delays s @ [?d (Suc n)]"
      and "length (fs_calls ?s2) = length (fs_calls s) + 1"
      using transport_attempt_calls [OF again(1)] by simp_all
    moreover have "[Suc n ..< Suc n + Suc k] = Suc n # [Suc (Suc n) ..< Suc (Suc n) + k]"
      by (simp add: upt_conv_Cons)
    ultimately show ?thesis
      unfolding again(3) using d c by (intro exI [of _ "Suc k"]) simp
  qed
qed

text \<open>The delays of a run from a fresh state, and one sleep between any two calls.\<close>

lemma run_delays:
  "length (fs_calls (snd (fetchWithRetry rc env start st))) =
     length (fs_delays (snd (fetchWithRetry rc env start st))) + 1"
  "i < length (fs_delays (snd (fetchWithRetry rc env start st))) \<Longrightarrow>
   fs_delays (snd (fetchWithRetry rc env start st)) ! i =
     js_add (backoff (rc_retryDelay rc) (Suc i)) (jitter (rc_retryDelay rc) (ev_random (env (Suc i))))"
proof -
  let ?s = "snd (fetchWithRetry rc env start st)"
  let ?d = "\<lambda>j. js_add (backoff (rc_retryDelay rc) j) (jitter (rc_retryDelay rc) (ev_random (env j)))"
  from loop_delays [of rc env start 0 "\<lparr>fs_store = st, fs_calls = [], fs_delays = []\<rparr>"]
  obtain k where d: "fs_delays ?s = map ?d [Suc 0 ..< Suc 0 + k]"
    and c: "length (fs_calls ?s) = k + 1"
    unfolding fetchWithRetry_def by auto
  from d c show "length (fs_calls ?s) = length (fs_delays ?s) + 1" by (simp del: upt_Suc)
  assume "i < length (fs_delays ?s)"
  with d have "i < k" by (simp del: upt_Suc)
  with d show "fs_delays ?s ! i = ?d (Suc i)" by (simp del: upt_Suc)
qed

lemma jitter_bounds:
  assumes d: "0 < d" and m: "m < 2 ^ k" "nearest_double m = m"
  shows "0 \<le> js_number (int m * d) div 2 ^ k" and "js_number (int m * d) div 2 ^ k < d"
proof -
  have "nat (int m * d) = m * nat d" using d by (simp add: nat_mult_distrib)
  then have p: "js_number (int m * d) = int (nearest_double (m * nat d))"
    using d by (simp add: js_number_nonneg)
  show "0 \<le> js_number (int m * d) div 2 ^ k"
    unfolding p by (simp add: pos_imp_zdiv_nonneg_iff)
  have "nearest_double (m * nat d) < nat d * 2 ^ k"
    using d m by (intro product_below) simp_all
  then have "nearest_double (m * nat d) div 2 ^ k < nat d"
    by (rule less_mult_imp_div_less)
  then have "int (nearest_double (m * nat d) div 2 ^ k) < d" using d by linarith
  then show "js_number (int m * d) div 2 ^ k < d"
    unfolding p by (simp add: zdiv_int)
qed

lemma loop_retry_step:
  assumes att: "transport_attempt rc (env (Suc n)) s = (out, a, s1)"
    and retry: "(\<exists>name msg. out = Rejects name msg \<and> \<not> (a \<and> name = ''AbortError'')) \<or>
      (\<exists>res. out = Resolves res \<and> \<not> res_ok res \<and> res_status res \<in> set (retryOn rc))"
    and more: "int (Suc n) \<le> rc_retries rc"
  shows "fetchWithRetry_loop rc env start n s =
      fetchWithRetry_loop rc env start (Suc n) (sleep rc (env (Suc n)) (Suc n) s1)"
    and "fs_delays (sleep rc (env (Suc n)) (Suc n) s1) =
      fs_delays s @
        [js_number (js_number (rc_retryDelay rc * 2 ^ n) +
           js_number (int (fst (ev_random (env (Suc n)))) * rc_retryDelay rc) div
             2 ^ snd (ev_random (env (Suc n))))]"
    and "fs_calls (sleep rc (env (Suc n)) (Suc n) s1) =
      fs_calls s @ [(rc_url rc, (rc_options rc)\<lparr>o_signal := Some (length (fs_store s))\<rparr>)]"
proof -
  from retry show "fetchWithRetry_loop rc env start n s =
      fetchWithRetry_loop rc env start (Suc n) (sleep rc (env (Suc n)) (Suc n) s1)"
  proof (elim disjE exE conjE)
    fix name msg assume "out = Rejects name msg" "\<not> (a \<and> name = ''AbortError'')"
    with att more show ?thesis
      using loop_reject_retry [where env = env and n = n and rc = rc and s = s and name = name
          and msg = msg and a = a and ?s1.0 = s1 and start = start] by simp
  next
    fix res assume "out = Resolves res" "\<not> res_ok res" "res_status res \<in> set (retryOn rc)"
    with att more show ?thesis
      using loop_status_retry [where env = env and n = n and rc = rc and s = s and res = res
          and a = a and ?s1.0 = s1 and start = start] by simp
  qed
  show "fs_delays (sleep rc (env (Suc n)) (Suc n) s1) =
      fs_delays s @
        [js_number (js_number (rc_retryDelay rc * 2 ^ n) +
           js_number (int (fst (ev_random (env (Suc n)))) * rc_retryDelay rc) div
             2 ^ snd (ev_random (env (Suc n))))]"
    and "fs_calls (sleep rc (env (Suc n)) (Suc n) s1) =
      fs_calls s @ [(rc_url rc, (rc_options rc)\<lparr>o_signal := Some (length (fs_store s))\<rparr>)]"
    using transport_attempt_calls [OF att]
    by (simp_all add: js_add_def js_mul_def backoff_def jitter_def)
qed

text \<open>
  Claim C9, as the code has it. An attempt that fails and is retried (its call rejects
  while its controller is not aborted, or the reply has an error status of the retry
  list, and attempts remain) is followed by one sleep, and the next attempt comes after
  it; so \<^verbatim>\<open>fetchWithRetry\<close> sleeps once between any two transport calls. The \<^verbatim>\<open>i\<close>-th sleep
  (counting from 0) follows attempt \<^verbatim>\<open>n = i + 1\<close>, and the delay it asks for is
  \<^verbatim>\<open>retryDelay * 2^(n-1) + floor(random * retryDelay)\<close> computed on doubles: each product
  and the sum are rounded to the nearest double. For a \<^verbatim>\<open>retryDelay\<close> that is a positive
  double and \<^verbatim>\<open>random = m / 2^k\<close> a double in \<^verbatim>\<open>[0, 1)\<close>, the backoff \<^verbatim>\<open>retryDelay * 2^(n-1)\<close>
  is exact, the jitter is at least 0 and less than \<^verbatim>\<open>retryDelay\<close>, and the delay is at
  least the backoff. As long as \<^verbatim>\<open>retryDelay * 2^(n-1) + retryDelay\<close> is at most \<^verbatim>\<open>2^53\<close> the
  sum is exact too: the delay is the backoff plus the jitter, and it is less than the
  backoff plus \<^verbatim>\<open>retryDelay\<close>.
\<close>

theorem backoff_delays:
  "(transport_attempt rc (env (Suc n)) s = (out, a, s1) \<and>
    ((\<exists>name msg. out = Rejects name msg \<and> \<not> (a \<and> name = ''AbortError'')) \<or>
     (\<exists>res. out = Resolves res \<and> \<not> res_ok res \<and> res_status res \<in> set (retryOn rc))) \<and>
    int (Suc n) \<le> rc_retries rc \<longrightarrow>
      fetchWithRetry_loop rc env start n s =
        fetchWithRetry_loop rc env start (Suc n) (sleep rc (env (Suc n)) (Suc n) s1) \<and>
      fs_delays (sleep rc (env (Suc n)) (Suc n) s1) =
        fs_delays s @
          [js_number (js_number (rc_retryDelay rc * 2 ^ n) +
             js_number (int (fst (ev_random (env (Suc n)))) * rc_retryDelay rc) div
               2 ^ snd (ev_random (env (Suc n))))] \<and>
      fs_calls (sleep rc (env (Suc n)) (Suc n) s1) =
        fs_calls s @ [(rc_url rc, (rc_options rc)\<lparr>o_signal := Some (length (fs_store s))\<rparr>)]) \<and>
   length (fs_calls (snd (fetchWithRetry rc env start st))) =
     length (fs_delays (snd (fetchWithRetry rc env start st))) + 1 \<and>
   (i < length (fs_delays (snd (fetchWithRetry rc env start st))) \<and>
    ev_random (env (Suc i)) = (m, k) \<and> rc_retryDelay rc = d \<longrightarrow>
      fs_delays (snd (fetchWithRetry rc env start st)) ! i =
        js_number (js_number (d * 2 ^ i) + js_number (int m * d) div 2 ^ k) \<and>
      (0 < d \<and> js_number d = d \<and> m < 2 ^ k \<and> nearest_double m = m \<longrightarrow>
         js_number (d * 2 ^ i) = d * 2 ^ i \<and>
         0 \<le> js_number (int m * d) div 2 ^ k \<and> js_number (int m * d) div 2 ^ k < d \<and>
         d * 2 ^ i \<le> fs_delays (snd (fetchWithRetry rc env start st)) ! i \<and>
         (d * 2 ^ i + d \<le> 2 ^ 53 \<longrightarrow>
            fs_delays (snd (fetchWithRetry rc env start st)) ! i =
              d * 2 ^ i + js_number (int m * d) div 2 ^ k \<and>
            fs_delays (snd (fetchWithRetry rc env start st)) ! i < d * 2 ^ i + d)))"
proof (intro conjI impI)
  assume r: "transport_attempt rc (env (Suc n)) s = (out, a, s1) \<and>
    ((\<exists>name msg. out = Rejects name msg \<and> \<not> (a \<and> name = ''AbortError'')) \<or>
     (\<exists>res. out = Resolves res \<and> \<not> res_ok res \<and> res_status res \<in> set (retryOn rc))) \<and>
    int (Suc n) \<le> rc_retries rc"
  then have att: "transport_attempt rc (env (Suc n)) s = (out, a, s1)"
    and retry: "(\<exists>name msg. out = Rejects name msg \<and> \<not> (a \<and> name = ''AbortError'')) \<or>
     (\<exists>res. out = Resolves res \<and> \<not> res_ok res \<and> res_status res \<in> set (retryOn rc))"
    and more: "int (Suc n) \<le> rc_retries rc"
    by blast+
  from loop_retry_step(1) [where env = env and n = n and start = start, OF att retry more]
    loop_retry_step(2,3) [where env = env and n = n, OF att retry more]
  show "fetchWithRetry_loop rc env start n s =
        fetchWithRetry_loop rc env start (Suc n) (sleep rc (env (Suc n)) (Suc n) s1)"
    and "fs_delays (sleep rc (env (Suc n)) (Suc n) s1) =
        fs_delays s @
          [js_number (js_number (rc_retryDelay rc * 2 ^ n) +
             js_number (int (fst (ev_random (env (Suc n)))) * rc_retryDelay rc) div
               2 ^ snd (ev_random (env (Suc n))))]"
    and "fs_calls (sleep rc (env (Suc n)) (Suc n) s1) =
        fs_calls s @ [(rc_url rc, (rc_options rc)\<lparr>o_signal := Some (length (fs_store s))\<rparr>)]"
    by simp_all
next
  show "length (fs_calls (snd (fetchWithRetry rc env start st))) =
     length (fs_delays (snd (fetchWithRetry rc env start st))) + 1"
    by (rule run_delays(1))
next
  let ?s = "snd (fetchWithRetry rc env start st)"
  let ?j = "js_number (int m * d) div 2 ^ k"
  assume a: "i < length (fs_delays ?s) \<and> ev_random (env (Suc i)) = (m, k) \<and> rc_retryDelay rc = d"
  then have eq: "fs_delays ?s ! i = js_number (js_number (d * 2 ^ i) + ?j)"
    using run_delays(2) [of i rc env start st]
    by (simp add: js_add_def js_mul_def backoff_def jitter_def)
  show "fs_delays ?s ! i = js_number (js_number (d * 2 ^ i) + ?j)" by (rule eq)
  assume b: "0 < d \<and> js_number d = d \<and> m < 2 ^ k \<and> nearest_double m = m"
  then have bo: "js_number (d * 2 ^ i) = d * 2 ^ i"
    by (intro js_number_shift) simp_all
  from b have j: "0 \<le> ?j" "?j < d" using jitter_bounds [of d m k] by simp_all
  show "js_number (d * 2 ^ i) = d * 2 ^ i" by (rule bo)
  show "0 \<le> ?j" "?j < d" by (rule j)+
  have "d * 2 ^ i \<le> js_number (d * 2 ^ i + ?j)"
    using b bo j(1) by (intro js_number_ge) simp_all
  then show "d * 2 ^ i \<le> fs_delays ?s ! i" unfolding eq bo .
  assume "d * 2 ^ i + d \<le> 2 ^ 53"
  with j b have "0 \<le> d * 2 ^ i + ?j" "d * 2 ^ i + ?j < 2 ^ 53" by simp_all
  then have "js_number (d * 2 ^ i + ?j) = d * 2 ^ i + ?j" by (rule js_number_exact)
  then show "fs_delays ?s ! i = d * 2 ^ i + ?j" unfolding eq bo .
  with j(2) show "fs_delays ?s ! i < d * 2 ^ i + d" by simp
qed

lemma ex_offline_run:
  "fs_delays (snd (fetchWithRetry (ex_retry 2 0) ex_offline 0 [])) = [450, 750]"
  by (simp add: fetchWithRetry_def fetchWithRetry_loop.simps transport_attempt_def
      ex_retry_def ex_offline_def ex_options_def new_AbortController_def is_aborted_def
      sleep_def backoff_def jitter_def js_add_def js_mul_def js_number_exact nth_append)

lemma ex_offline_first:
  "transport_attempt (ex_retry 2 0) (ex_offline (Suc 0))
     \<lparr>fs_store = [], fs_calls = [], fs_delays = []\<rparr> =
   (Rejects ''TypeError'' ''Failed to fetch'', False,
      \<lparr>fs_store = [\<lparr>ctl_aborted = False, ctl_listeners = []\<rparr>],
       fs_calls = [(''https://api.example.com/posts'', ex_options\<lparr>o_signal := Some 0\<rparr>)],
       fs_delays = []\<rparr>)"
  by (simp add: transport_attempt_def ex_retry_def ex_offline_def ex_options_def
      new_AbortController_def is_aborted_def)

theorem backoff_delays_witness:
  "fs_delays (sleep (ex_retry 2 0) (ex_offline (Suc 0)) (Suc 0)
      \<lparr>fs_store = [\<lparr>ctl_aborted = False, ctl_listeners = []\<rparr>],
       fs_calls = [(''https://api.example.com/posts'', ex_options\<lparr>o_signal := Some 0\<rparr>)],
       fs_delays = []\<rparr>) = [450] \<and>
   length (fs_calls (snd (fetchWithRetry (ex_retry 2 0) ex_offline 0 []))) = 3 \<and>
   fs_delays (snd (fetchWithRetry (ex_retry 2 0) ex_offline 0 [])) ! 1 = 300 * 2 ^ 1 + 150 \<and>
   600 \<le> fs_delays (snd (fetchWithRetry (ex_retry 2 0) ex_offline 0 [])) ! 1 \<and>
   fs_delays (snd (fetchWithRetry (ex_retry 2 0) ex_offline 0 [])) ! 1 < 900"
  using backoff_delays [where rc = "ex_retry 2 0" and env = ex_offline and start = 0
      and st = "[]" and i = 1 and m = 1 and k = 1 and d = 300 and n = 0
      and s = "\<lparr>fs_store = [], fs_calls = [], fs_delays = []\<rparr>"
      and out = "Rejects ''TypeError'' ''Failed to fetch''" and a = False
      and ?s1.0 = "\<lparr>fs_store = [\<lparr>ctl_aborted = False, ctl_listeners = []\<rparr>],
       fs_calls = [(''https://api.example.com/posts'', ex_options\<lparr>o_signal := Some 0\<rparr>)],
       fs_delays = []\<rparr>"]
    ex_offline_run ex_offline_first
  by (simp add: ex_retry_def ex_offline_def js_number_exact nearest_double_exact)

text \<open>
  Claim C9 as stated fails once the sum no longer fits in 53 bits. With \<^verbatim>\<open>retryDelay = 300\<close>,
  46 retries, a transport that always fails and \<^verbatim>\<open>Math.random()\<close> giving its largest
  value \<^verbatim>\<open>1 - 2^-53\<close>, the jitter after attempt 46 is 299 and the backoff is \<^verbatim>\<open>300 * 2^45\<close>;
  their sum is odd and lies above \<^verbatim>\<open>2^53\<close>, where the doubles are the even numbers, so the
  delay asked for is \<^verbatim>\<open>300 * 2^45 + 300\<close>: not less than the backoff plus \<^verbatim>\<open>retryDelay\<close>.
\<close>

lemma ex_unlucky_jitter: "js_number (int (2 ^ 53 - 1) * 300) div 2 ^ 53 = 299"
proof -
  have b: "bitlen (2702159776422297300::nat) = 62"
    using bitlen_eq [of 61 2702159776422297300] by simp
  have "nearest_double (2702159776422297300::nat) = 2702159776422297088"
    unfolding nearest_double_def b by simp
  then show ?thesis by (simp add: js_number_nonneg)
qed

lemma ex_unlucky_sum: "js_number (300 * 2 ^ 45 + 299) = 300 * 2 ^ 45 + 300"
proof -
  have b: "bitlen (10555311626649899::nat) = 54"
    using bitlen_eq [of 53 10555311626649899] by simp
  have "nearest_double (10555311626649899::nat) = 10555311626649900"
    unfolding nearest_double_def b by simp
  then show ?thesis by (simp add: js_number_nonneg)
qed

theorem backoff_bound_counterexample:
  "45 < length (fs_delays (snd (fetchWithRetry (ex_retry 46 0) ex_unlucky 0 []))) \<and>
   46 < length (fs_calls (snd (fetchWithRetry (ex_retry 46 0) ex_unlucky 0 []))) \<and>
   rc_retryDelay (ex_retry 46 0) = 300 \<and> js_number 300 = 300 \<and>
   ev_random (ex_unlucky 46) = (2 ^ 53 - 1, 53) \<and> (2 ^ 53 - 1 :: nat) < 2 ^ 53 \<and>
   nearest_double (2 ^ 53 - 1) = 2 ^ 53 - 1 \<and>
   fs_delays (snd (fetchWithRetry (ex_retry 46 0) ex_unlucky 0 [])) ! 45 = 300 * 2 ^ 45 + 300 \<and>
   \<not> fs_delays (snd (fetchWithRetry (ex_retry 46 0) ex_unlucky 0 [])) ! 45 < 300 * 2 ^ 45 + 300"
proof -
  let ?s = "snd (fetchWithRetry (ex_retry 46 0) ex_unlucky 0 [])"
  have r: "nat (rc_retries (ex_retry 46 0)) = 46" "rc_retryDelay (ex_retry 46 0) = 300"
    by (simp_all add: ex_retry_def)
  have "\<And>k. ev_cancelled (ex_unlucky k) = [] \<and> \<not> ev_timer_first (ex_unlucky k) \<and>
      ev_settles (ex_unlucky k) = Rejects ''TypeError'' ''Failed to fetch''"
    by (simp add: ex_unlucky_def)
  from loop_persistent_failure [of ex_unlucky "\<lambda>k. ''TypeError''" "\<lambda>k. ''Failed to fetch''" 0
      "ex_retry 46 0" 0 "\<lparr>fs_store = [], fs_calls = [], fs_delays = []\<rparr>", OF this]
  have len: "length (fs_delays ?s) = 46" "length (fs_calls ?s) = 47"
    unfolding fetchWithRetry_def r by auto
  have "fs_delays ?s ! 45 =
      js_add (backoff 300 (Suc 45)) (jitter 300 (ev_random (ex_unlucky (Suc 45))))"
    using run_delays(2) [of 45 "ex_retry 46 0" ex_unlucky 0 "[]"] len r by simp
  also have "\<dots> = js_number (js_number (300 * 2 ^ 45) + js_number (int (2 ^ 53 - 1) * 300) div 2 ^ 53)"
    by (simp add: js_add_def js_mul_def backoff_def jitter_def ex_unlucky_def)
  also have "js_number (300 * 2 ^ 45) = 300 * 2 ^ 45"
    by (intro js_number_shift) (simp_all add: js_number_exact)
  finally have "fs_delays ?s ! 45 = 300 * 2 ^ 45 + 300"
    unfolding ex_unlucky_jitter using ex_unlucky_sum by simp
  with len r show ?thesis
    by (simp add: js_number_exact nearest_double_exact ex_unlucky_def)
qed

section \<open>Properties of the concurrency queue\<close>

lemma queue_inv_empty: "queue_inv mx empty_queue"
  by (simp add: queue_inv_def empty_queue_def)

lemma queue_inv_enqueue: "queue_inv mx q \<Longrightarrow> queue_inv mx (enqueue mx t q)"
  by (cases mx) (auto simp: queue_inv_def enqueue_def run_def Let_def)

lemma queue_inv_on_settled:
  assumes "queue_inv mx q" and t: "t \<in> set (running q)"
  shows "queue_inv mx (on_settled how t q)"
proof -
  from t have "0 < length (running q)" by (rule length_pos_if_in_set)
  then have "int (length (running q) - Suc 0) = int (length (running q)) - 1" by linarith
  with assms show ?thesis
    by (cases "queue q")
       (auto simp: queue_inv_def on_settled_def run_def Let_def length_remove1)
qed

lemma queue_inv_step: "queue_inv mx q \<Longrightarrow> queue_inv mx (step mx q e)"
  by (cases e) (simp_all add: queue_inv_enqueue queue_inv_on_settled)

lemma queue_inv_exec: "queue_inv mx (exec mx evs)"
  unfolding exec_def
  by (induction evs rule: rev_induct) (simp_all add: queue_inv_empty queue_inv_step)

lemma on_settled_effect:
  "activeCount (on_settled how t q) = (if queue q = [] then activeCount q - 1 else activeCount q)"
  "queue (on_settled how t q) = tl (queue q)"
  "admitted (on_settled how t q) = admitted q @ take 1 (queue q)"
  "running (on_settled how t q) = remove1 t (running q) @ take 1 (queue q)"
  "on_settled Fulfilled t q = on_settled Rejected t q"
  by (cases "queue q"; simp add: on_settled_def run_def Let_def)+

text \<open>
  Claim C4. After any sequence of submissions and settlements, \<^verbatim>\<open>activeCount\<close> is the
  number of running tasks, it is at least 0 and at most \<^verbatim>\<open>maxConcurrent\<close> (a limit that is
  not negative); the tasks admitted so far followed by the tasks waiting are the tasks
  in their order of arrival, so admission is first in, first out; and the \<^verbatim>\<open>finally\<close>
  callback of a task does the same whether the task was fulfilled or rejected: it
  decrements \<^verbatim>\<open>activeCount\<close> and, when a task waits, takes the first waiting task off the
  queue and starts it, which increments \<^verbatim>\<open>activeCount\<close> again.
\<close>

theorem queue_invariants:
  "0 \<le> activeCount (exec mx evs) \<and>
   activeCount (exec mx evs) = int (length (running (exec mx evs))) \<and>
   (\<forall>N. mx = Limit N \<and> 0 \<le> N \<longrightarrow> activeCount (exec mx evs) \<le> N) \<and>
   arrived (exec mx evs) = admitted (exec mx evs) @ queue (exec mx evs) \<and>
   (\<forall>how t. activeCount (on_settled how t (exec mx evs)) =
              (if queue (exec mx evs) = [] then activeCount (exec mx evs) - 1
               else activeCount (exec mx evs)) \<and>
            queue (on_settled how t (exec mx evs)) = tl (queue (exec mx evs)) \<and>
            admitted (on_settled how t (exec mx evs)) =
              admitted (exec mx evs) @ take 1 (queue (exec mx evs)) \<and>
            on_settled Fulfilled t (exec mx evs) = on_settled Rejected t (exec mx evs))"
  using queue_inv_exec [of mx evs]
  by (simp add: queue_inv_def on_settled_effect)

theorem queue_invariants_witness:
  "activeCount (exec (Limit 1) [Submit (1::nat), Submit 2, Submit 3, Settles 1 Rejected]) = 1 \<and>
   running (exec (Limit 1) [Submit (1::nat), Submit 2, Submit 3, Settles 1 Rejected]) = [2] \<and>
   arrived (exec (Limit 1) [Submit (1::nat), Submit 2, Submit 3, Settles 1 Rejected]) = [1, 2, 3] \<and>
   admitted (exec (Limit 1) [Submit (1::nat), Submit 2, Submit 3, Settles 1 Rejected]) = [1, 2] \<and>
   queue (exec (Limit 1) [Submit (1::nat), Submit 2, Submit 3, Settles 1 Rejected]) = [3] \<and>
   activeCount (on_settled Rejected 2
     (exec (Limit 1) [Submit (1::nat), Submit 2, Submit 3, Settles 1 Rejected])) = 1"
  using queue_invariants [of "Limit 1" "[Submit (1::nat), Submit 2, Submit 3, Settles 1 Rejected]"]
  by (simp add: exec_def enqueue_def run_def on_settled_def empty_queue_def Let_def)

section \<open>Properties of the hooks and of the task\<close>

lemma intercept_split:
  "intercept f x =
     (case f x of (left, Throws) \<Rightarrow> left | (left, Falsy) \<Rightarrow> left | (left, Gives v) \<Rightarrow> v)"
  by (simp add: intercept_def)

lemma intercept_skip: "f x = (x, out) \<Longrightarrow> out \<in> {Throws, Falsy} \<Longrightarrow> intercept f x = x"
  by (auto simp: intercept_def)

lemma in_place_same [simp]: "in_place d d = d"
  by (cases d) simp_all

lemma transform_step_split:
  "transform_step f (d1, b1) =
     (case f d1 b1 of
        ((d2, b2), Throws) \<Rightarrow> (in_place d1 d2, b2)
      | ((d2, b2), Falsy) \<Rightarrow> (in_place d1 d2, b2)
      | ((d2, b2), Gives v) \<Rightarrow> (if truthy v then v else in_place d1 d2, b2))"
  by (simp add: transform_step_def split: prod.split hook_out.split)

lemma transform_step_skip:
  "f (fst cur) (snd cur) = (cur, out) \<Longrightarrow> out \<in> {Throws, Falsy} \<Longrightarrow> transform_step f cur = cur"
  by (cases cur) (auto simp: transform_step_def)

lemma applyRequestInterceptors_use:
  "applyRequestInterceptors (use_request f conf) c =
   (case f (applyRequestInterceptors conf c) of
      (left, Throws) \<Rightarrow> left
    | (left, Falsy) \<Rightarrow> left
    | (left, Gives v) \<Rightarrow> v)"
  by (simp add: applyRequestInterceptors_def use_request_def intercept_split)

lemma applyResponseInterceptors_use:
  "applyResponseInterceptors (use_response f conf) r =
   (case f (applyResponseInterceptors conf r) of
      (left, Throws) \<Rightarrow> left
    | (left, Falsy) \<Rightarrow> left
    | (left, Gives v) \<Rightarrow> v)"
  by (simp add: applyResponseInterceptors_def use_response_def intercept_split)

lemma applyTransformRequest_add:
  "applyTransformRequest (addTransformRequest f conf) d hs =
   (case applyTransformRequest conf d hs of
      (d1, h1) \<Rightarrow>
        (case f d1 h1 of
           ((d2, h2), Throws) \<Rightarrow> (in_place d1 d2, h2)
         | ((d2, h2), Falsy) \<Rightarrow> (in_place d1 d2, h2)
         | ((d2, h2), Gives v) \<Rightarrow> (if truthy v then v else in_place d1 d2, h2)))"
  by (cases "fold transform_step (transformRequest conf) (d, hs)")
     (simp add: applyTransformRequest_def addTransformRequest_def transform_step_split)

lemma applyTransformResponse_add:
  "applyTransformResponse (addTransformResponse f conf) d r =
   (case applyTransformResponse conf d r of
      (d1, r1) \<Rightarrow>
        (case f d1 r1 of
           ((d2, r2), Throws) \<Rightarrow> (in_place d1 d2, r2)
         | ((d2, r2), Falsy) \<Rightarrow> (in_place d1 d2, r2)
         | ((d2, r2), Gives v) \<Rightarrow> (if truthy v then v else in_place d1 d2, r2)))"
  by (cases "fold transform_step (transformResponse conf) (d, r)")
     (simp add: applyTransformResponse_def addTransformResponse_def transform_step_split)

lemma applyRequestInterceptors_skip:
  "f (applyRequestInterceptors (conf\<lparr>interceptors_request := fs\<rparr>) c) =
     (applyRequestInterceptors (conf\<lparr>interceptors_request := fs\<rparr>) c, out) \<Longrightarrow>
   out \<in> {Throws, Falsy} \<Longrightarrow>
   applyRequestInterceptors (conf\<lparr>interceptors_request := fs @ f # gs\<rparr>) c =
   applyRequestInterceptors (conf\<lparr>interceptors_request := fs @ gs\<rparr>) c"
  by (simp add: applyRequestInterceptors_def intercept_skip)

lemma applyResponseInterceptors_skip:
  "f (applyResponseInterceptors (conf\<lparr>interceptors_response := fs\<rparr>) r) =
     (applyResponseInterceptors (conf\<lparr>interceptors_response := fs\<rparr>) r, out) \<Longrightarrow>
   out \<in> {Throws, Falsy} \<Longrightarrow>
   applyResponseInterceptors (conf\<lparr>interceptors_response := fs @ f # gs\<rparr>) r =
   applyResponseInterceptors (conf\<lparr>interceptors_response := fs @ gs\<rparr>) r"
  by (simp add: applyResponseInterceptors_def intercept_skip)

lemma applyTransformRequest_skip:
  "applyTransformRequest (conf\<lparr>transformRequest := fs\<rparr>) d hs = (d1, h1) \<Longrightarrow>
   f d1 h1 = ((d1, h1), out) \<Longrightarrow> out \<in> {Throws, Falsy} \<Longrightarrow>
   applyTransformRequest (conf\<lparr>transformRequest := fs @ f # gs\<rparr>) d hs =
   applyTransformRequest (conf\<lparr>transformRequest := fs @ gs\<rparr>) d hs"
  by (simp add: applyTransformRequest_def transform_step_skip)

lemma applyTransformResponse_skip:
  "applyTransformResponse (conf\<lparr>transformResponse := fs\<rparr>) d r = (d1, r1) \<Longrightarrow>
   f d1 r1 = ((d1, r1), out) \<Longrightarrow> out \<in> {Throws, Falsy} \<Longrightarrow>
   applyTransformResponse (conf\<lparr>transformResponse := fs @ f # gs\<rparr>) d r =
   applyTransformResponse (conf\<lparr>transformResponse := fs @ gs\<rparr>) d r"
  by (simp add: applyTransformResponse_def transform_step_skip)

text \<open>Only the request interceptors read \<^verbatim>\<open>interceptors.request\<close>.\<close>

lemma fullUrl_frame [simp]:
  "fullUrl (conf\<lparr>interceptors_request := X\<rparr>) u = fullUrl conf u"
  by (simp add: fullUrl_def)

lemma applyTransformRequest_frame [simp]:
  "applyTransformRequest (conf\<lparr>interceptors_request := X\<rparr>) d hs = applyTransformRequest conf d hs"
  by (simp add: applyTransformRequest_def)

lemma request_config_frame [simp]:
  "request_config (conf\<lparr>interceptors_request := X\<rparr>) m u op st = request_config conf m u op st"
  unfolding request_config_def by (simp cong: option.case_cong prod.case_cong)

lemma serve_cached_frame [simp]:
  "serve_cached (conf\<lparr>interceptors_request := X\<rparr>) r = serve_cached conf r"
  by (simp add: serve_cached_def applyResponseInterceptors_def applyTransformResponse_def)

lemma shape_response_frame [simp]:
  "shape_response (conf\<lparr>interceptors_request := X\<rparr>) r = shape_response conf r"
  by (simp add: shape_response_def applyResponseInterceptors_def applyTransformResponse_def)

lemma runGlobalErrors_frame [simp]:
  "runGlobalErrors (conf\<lparr>interceptors_request := X\<rparr>) err c w = runGlobalErrors conf err c w"
  by (simp add: runGlobalErrors_def)

lemma task_frame [simp]:
  "task (conf\<lparr>interceptors_request := X\<rparr>) p env start now w = task conf p env start now w"
  by (simp add: task_def Let_def cong: prod.case_cong fetch_outcome.case_cong if_cong)

lemma handleFetchRaw_skip:
  assumes "f (applyRequestInterceptors (conf\<lparr>interceptors_request := fs\<rparr>)
               (fst (request_config conf m u op (controllers w)))) =
             (applyRequestInterceptors (conf\<lparr>interceptors_request := fs\<rparr>)
               (fst (request_config conf m u op (controllers w))), out)"
    and "out \<in> {Throws, Falsy}"
  shows "handleFetchRaw (conf\<lparr>interceptors_request := fs @ f # gs\<rparr>) now m u op w =
         handleFetchRaw (conf\<lparr>interceptors_request := fs @ gs\<rparr>) now m u op w"
proof -
  obtain cfirst st where rc: "request_config conf m u op (controllers w) = (cfirst, st)"
    by (cases "request_config conf m u op (controllers w)")
  with assms have "applyRequestInterceptors (conf\<lparr>interceptors_request := fs @ f # gs\<rparr>) cfirst =
      applyRequestInterceptors (conf\<lparr>interceptors_request := fs @ gs\<rparr>) cfirst"
    by (intro applyRequestInterceptors_skip [where out = out]) simp_all
  with rc show ?thesis
    by (simp add: handleFetchRaw_def cong: option.case_cong prod.case_cong if_cong)
qed

lemma request_skip:
  assumes "f (applyRequestInterceptors (conf\<lparr>interceptors_request := fs\<rparr>)
               (fst (request_config conf m u op (controllers w)))) =
             (applyRequestInterceptors (conf\<lparr>interceptors_request := fs\<rparr>)
               (fst (request_config conf m u op (controllers w))), out)"
    and "out \<in> {Throws, Falsy}"
  shows "request (conf\<lparr>interceptors_request := fs @ f # gs\<rparr>) now m u op env now' w =
         request (conf\<lparr>interceptors_request := fs @ gs\<rparr>) now m u op env now' w"
  using handleFetchRaw_skip [where f = f and conf = conf and fs = fs and gs = gs and m = m
      and u = u and op = op and w = w and now = now and out = out] assms
  by (simp add: request_def cong: prod.case_cong lookup.case_cong)

text \<open>
  Claim C8, as the code has it. In each of the four chains a newly registered function
  runs last, on what the functions registered before it have produced. When it returns
  a truthy value, that value goes on; when it throws or returns something falsy, the
  value it was handed goes on as the function left it, so a change made in place before
  the throw stays. An empty chain leaves its input as it is. A function that throws or
  returns something falsy and has left its arguments as they were counts for nothing:
  the chain without it gives the same, and a request whose chain of request interceptors
  holds such a function gives the result, and leaves the world, of the same request
  without it.
\<close>

theorem hook_chains:
  "applyRequestInterceptors (use_request f conf) c =
     (case f (applyRequestInterceptors conf c) of
        (left, Throws) \<Rightarrow> left
      | (left, Falsy) \<Rightarrow> left
      | (left, Gives v) \<Rightarrow> v) \<and>
   applyResponseInterceptors (use_response g conf) r =
     (case g (applyResponseInterceptors conf r) of
        (left, Throws) \<Rightarrow> left
      | (left, Falsy) \<Rightarrow> left
      | (left, Gives v) \<Rightarrow> v) \<and>
   applyTransformRequest (addTransformRequest tq conf) d hs =
     (case applyTransformRequest conf d hs of
        (d1, h1) \<Rightarrow>
          (case tq d1 h1 of
             ((d2, h2), Throws) \<Rightarrow> (in_place d1 d2, h2)
           | ((d2, h2), Falsy) \<Rightarrow> (in_place d1 d2, h2)
           | ((d2, h2), Gives v) \<Rightarrow> (if truthy v then v else in_place d1 d2, h2))) \<and>
   applyTransformResponse (addTransformResponse tr conf) d r =
     (case applyTransformResponse conf d r of
        (d1, r1) \<Rightarrow>
          (case tr d1 r1 of
             ((d2, r2), Throws) \<Rightarrow> (in_place d1 d2, r2)
           | ((d2, r2), Falsy) \<Rightarrow> (in_place d1 d2, r2)
           | ((d2, r2), Gives v) \<Rightarrow> (if truthy v then v else in_place d1 d2, r2))) \<and>
   applyRequestInterceptors (conf\<lparr>interceptors_request := []\<rparr>) c = c \<and>
   applyResponseInterceptors (conf\<lparr>interceptors_response := []\<rparr>) r = r \<and>
   applyTransformRequest (conf\<lparr>transformRequest := []\<rparr>) d hs = (d, hs) \<and>
   applyTransformResponse (conf\<lparr>transformResponse := []\<rparr>) d r = (d, r) \<and>
   (f (applyRequestInterceptors (conf\<lparr>interceptors_request := fs\<rparr>) c) =
      (applyRequestInterceptors (conf\<lparr>interceptors_request := fs\<rparr>) c, out) \<and>
    out \<in> {Throws, Falsy} \<longrightarrow>
      applyRequestInterceptors (conf\<lparr>interceptors_request := fs @ f # gs\<rparr>) c =
      applyRequestInterceptors (conf\<lparr>interceptors_request := fs @ gs\<rparr>) c) \<and>
   (g (applyResponseInterceptors (conf\<lparr>interceptors_response := fs'\<rparr>) r) =
      (applyResponseInterceptors (conf\<lparr>interceptors_response := fs'\<rparr>) r, out') \<and>
    out' \<in> {Throws, Falsy} \<longrightarrow>
      applyResponseInterceptors (conf\<lparr>interceptors_response := fs' @ g # gs'\<rparr>) r =
      applyResponseInterceptors (conf\<lparr>interceptors_response := fs' @ gs'\<rparr>) r) \<and>
   (applyTransformRequest (conf\<lparr>transformRequest := ts\<rparr>) d hs = (d1, h1) \<and>
    tq d1 h1 = ((d1, h1), outq) \<and> outq \<in> {Throws, Falsy} \<longrightarrow>
      applyTransformRequest (conf\<lparr>transformRequest := ts @ tq # us\<rparr>) d hs =
      applyTransformRequest (conf\<lparr>transformRequest := ts @ us\<rparr>) d hs) \<and>
   (applyTransformResponse (conf\<lparr>transformResponse := ts'\<rparr>) d r = (d1', r1) \<and>
    tr d1' r1 = ((d1', r1), outr) \<and> outr \<in> {Throws, Falsy} \<longrightarrow>
      applyTransformResponse (conf\<lparr>transformResponse := ts' @ tr # us'\<rparr>) d r =
      applyTransformResponse (conf\<lparr>transformResponse := ts' @ us'\<rparr>) d r) \<and>
   (f (applyRequestInterceptors (conf\<lparr>interceptors_request := fs\<rparr>)
         (fst (request_config conf m u op (controllers w)))) =
      (applyRequestInterceptors (conf\<lparr>interceptors_request := fs\<rparr>)
         (fst (request_config conf m u op (controllers w))), out) \<and>
    out \<in> {Throws, Falsy} \<longrightarrow>
      request (conf\<lparr>interceptors_request := fs @ f # gs\<rparr>) now m u op env now' w =
      request (conf\<lparr>interceptors_request := fs @ gs\<rparr>) now m u op env now' w)"
proof (intro conjI impI)
  show "applyRequestInterceptors (conf\<lparr>interceptors_request := []\<rparr>) c = c"
    by (simp add: applyRequestInterceptors_def)
  show "applyResponseInterceptors (conf\<lparr>interceptors_response := []\<rparr>) r = r"
    by (simp add: applyResponseInterceptors_def)
  show "applyTransformRequest (conf\<lparr>transformRequest := []\<rparr>) d hs = (d, hs)"
    by (simp add: applyTransformRequest_def)
  show "applyTransformResponse (conf\<lparr>transformResponse := []\<rparr>) d r = (d, r)"
    by (simp add: applyTransformResponse_def)
next
  assume "f (applyRequestInterceptors (conf\<lparr>interceptors_request := fs\<rparr>) c) =
      (applyRequestInterceptors (conf\<lparr>interceptors_request := fs\<rparr>) c, out) \<and>
    out \<in> {Throws, Falsy}"
  then show "applyRequestInterceptors (conf\<lparr>interceptors_request := fs @ f # gs\<rparr>) c =
      applyRequestInterceptors (conf\<lparr>interceptors_request := fs @ gs\<rparr>) c"
    by (intro applyRequestInterceptors_skip [where out = out]) simp_all
next
  assume "g (applyResponseInterceptors (conf\<lparr>interceptors_response := fs'\<rparr>) r) =
      (applyResponseInterceptors (conf\<lparr>interceptors_response := fs'\<rparr>) r, out') \<and>
    out' \<in> {Throws, Falsy}"
  then show "applyResponseInterceptors (conf\<lparr>interceptors_response := fs' @ g # gs'\<rparr>) r =
      applyResponseInterceptors (conf\<lparr>interceptors_response := fs' @ gs'\<rparr>) r"
    by (intro applyResponseInterceptors_skip [where out = out']) simp_all
next
  assume "applyTransformRequest (conf\<lparr>transformRequest := ts\<rparr>) d hs = (d1, h1) \<and>
    tq d1 h1 = ((d1, h1), outq) \<and> outq \<in> {Throws, Falsy}"
  then show "applyTransformRequest (conf\<lparr>transformRequest := ts @ tq # us\<rparr>) d hs =
      applyTransformRequest (conf\<lparr>transformRequest := ts @ us\<rparr>) d hs"
    by (intro applyTransformRequest_skip [where out = outq and ?d1.0 = d1 and ?h1.0 = h1]) simp_all
next
  assume "applyTransformResponse (conf\<lparr>transformResponse := ts'\<rparr>) d r = (d1', r1) \<and>
    tr d1' r1 = ((d1', r1), outr) \<and> outr \<in> {Throws, Falsy}"
  then show "applyTransformResponse (conf\<lparr>transformResponse := ts' @ tr # us'\<rparr>) d r =
      applyTransformResponse (conf\<lparr>transformResponse := ts' @ us'\<rparr>) d r"
    by (intro applyTransformResponse_skip [where out = outr and ?d1.0 = d1' and ?r1.0 = r1]) simp_all
next
  assume "f (applyRequestInterceptors (conf\<lparr>interceptors_request := fs\<rparr>)
         (fst (request_config conf m u op (controllers w)))) =
      (applyRequestInterceptors (conf\<lparr>interceptors_request := fs\<rparr>)
         (fst (request_config conf m u op (controllers w))), out) \<and>
    out \<in> {Throws, Falsy}"
  then show "request (conf\<lparr>interceptors_request := fs @ f # gs\<rparr>) now m u op env now' w =
      request (conf\<lparr>interceptors_request := fs @ gs\<rparr>) now m u op env now' w"
    by (intro request_skip [where out = out]) simp_all
qed (rule applyRequestInterceptors_use applyResponseInterceptors_use applyTransformRequest_add
      applyTransformResponse_add)+

lemma run_handlers_entries:
  "k < length hs \<Longrightarrow> run_handlers i hs err c ! k = (i + k, err, c, (hs ! k) err c)"
proof (induction hs arbitrary: i k)
  case Nil
  then show ?case by simp
next
  case (Cons h hs)
  then show ?case by (cases k) simp_all
qed

lemma length_run_handlers [simp]: "length (run_handlers i hs err c) = length hs"
  by (induction hs arbitrary: i) simp_all

lemma handler_log_absorb [simp]: "handler_log (absorb s w) = handler_log w"
  by (simp add: absorb_def)

lemma handler_log_cache_write [simp]: "handler_log (cache_write p now r w) = handler_log w"
  by (simp add: cache_write_def)

lemma handler_log_getCached [simp]: "handler_log (snd (getCached now key w)) = handler_log w"
  by (simp add: getCached_def split: option.split)

lemma handler_log_handleFetchRaw:
  "handler_log (snd (handleFetchRaw conf now m u op w)) = handler_log w"
proof -
  obtain c0 st where rc: "request_config conf m u op (controllers w) = (c0, st)"
    by (cases "request_config conf m u op (controllers w)")
  let ?p = "prepare (c_cacheTTL c0) (applyRequestInterceptors conf c0)"
  obtain hit w2 where gc: "getCached now (p_cacheKey ?p) (w\<lparr>controllers := st\<rparr>) = (hit, w2)"
    by (cases "getCached now (p_cacheKey ?p) (w\<lparr>controllers := st\<rparr>)")
  have "handler_log w2 = handler_log w"
    using handler_log_getCached [of now "p_cacheKey ?p" "w\<lparr>controllers := st\<rparr>"] gc by simp
  with rc gc show ?thesis
    by (cases hit) (simp_all add: handleFetchRaw_def Let_def)
qed

lemma task_threw:
  "fst (fetchWithRetry (retry_config p) env start (controllers w)) = Threw err \<Longrightarrow>
   task conf p env start now w =
     (Failure \<lparr>f_ok = False, f_status = 0, f_data = JNull, f_error = err, f_config = p_cfg p\<rparr>,
      runGlobalErrors conf err (p_cfg p)
        (absorb (snd (fetchWithRetry (retry_config p) env start (controllers w))) w))"
  by (cases "fetchWithRetry (retry_config p) env start (controllers w)") (simp add: task_def)

lemma task_http_error:
  "fst (fetchWithRetry (retry_config p) env start (controllers w)) = Returned res d \<Longrightarrow>
   \<not> res_ok res \<Longrightarrow>
   task conf p env start now w =
     (Failure \<lparr>f_ok = False, f_status = res_status res,
               f_data = r_data (shape_response conf (build_response (p_cfg p) res d)),
               f_error = http_error res (shape_response conf (build_response (p_cfg p) res d)),
               f_config = p_cfg p\<rparr>,
      runGlobalErrors conf (http_error res (shape_response conf (build_response (p_cfg p) res d)))
        (p_cfg p) (absorb (snd (fetchWithRetry (retry_config p) env start (controllers w))) w))"
  by (cases "fetchWithRetry (retry_config p) env start (controllers w)") (simp add: task_def Let_def)

lemma task_ok:
  "fst (fetchWithRetry (retry_config p) env start (controllers w)) = Returned res d \<Longrightarrow>
   res_ok res \<Longrightarrow>
   task conf p env start now w =
     (Success (shape_response conf (build_response (p_cfg p) res d)),
      cache_write p now (shape_response conf (build_response (p_cfg p) res d))
        (absorb (snd (fetchWithRetry (retry_config p) env start (controllers w))) w))"
  by (cases "fetchWithRetry (retry_config p) env start (controllers w)") (simp add: task_def Let_def)

lemma ex_upper_get: "toUpperCase ''get'' = ''GET''"
  by (simp add: toUpperCase_def upper_char_def lower_letters_def upper_letters_def)

lemma ex_fullUrl: "fullUrl ex_hooks ''/posts'' = ''https://api.example.com/posts''"
  by (simp add: fullUrl_def ex_hooks_def ex_conf_def is_absolute_def toLowerCase_def lower_char_def
      lower_letters_def upper_letters_def endsWith_def startsWith_def strip_trailing_slashes_def
      strip_leading_slashes_def)

lemma ex_request_config:
  "request_config ex_hooks ''get'' ''/posts'' ex_cache_opts st = (ex_get_cfg, st)"
  by (simp add: request_config_def ex_fullUrl ex_upper_get build_options_def compose_signals_def
      ex_cache_opts_def no_opts_def applyTransformRequest_def assign_def nullish_def
      ex_get_cfg_def ex_options_def)
     (simp add: ex_hooks_def ex_conf_def)

lemma ex_prepare:
  "prepare 10 ex_get_cfg = \<lparr>p_cfg = ex_get_cfg, p_options = ex_options, p_timeout = 0,
     p_finalUrl = ''https://api.example.com/posts'', p_cacheKey = ex_key, p_cacheTTL = 10\<rparr>"
  by (simp add: prepare_def ex_get_cfg_def makeCacheKey_def ex_options_def ex_key_def
      toUpperCase_def upper_char_def lower_letters_def upper_letters_def)

lemma ex_no_request_hooks: "applyRequestInterceptors ex_hooks c = c"
  by (simp add: applyRequestInterceptors_def ex_hooks_def ex_conf_def)

lemma ex_get_cfg_fields:
  "c_cacheTTL ex_get_cfg = 10" "c_method ex_get_cfg = ''GET''"
  by (simp_all add: ex_get_cfg_def)

lemma ex_first_lookup:
  "handleFetchRaw ex_hooks 0 ''get'' ''/posts'' ex_cache_opts ex_world = (Miss (prepare 10 ex_get_cfg), ex_world)"
  by (simp add: handleFetchRaw_def ex_request_config ex_no_request_hooks ex_get_cfg_fields
      ex_prepare getCached_def ex_world_def)

lemma ex_retry_config:
  "retry_config (prepare 10 ex_get_cfg) = \<lparr>rc_url = ''https://api.example.com/posts'',
     rc_options = ex_options, rc_retries = 0, rc_retryDelay = 300, rc_retryOn = None,
     rc_timeout = 0\<rparr>"
  by (simp add: retry_config_def ex_prepare) (simp add: ex_get_cfg_def)

lemma ex_first_attempt:
  "transport_attempt (retry_config (prepare 10 ex_get_cfg)) (ex_answers res k)
     \<lparr>fs_store = [], fs_calls = [], fs_delays = []\<rparr> =
   (Resolves res, False,
      \<lparr>fs_store = [\<lparr>ctl_aborted = False, ctl_listeners = []\<rparr>],
       fs_calls = [(''https://api.example.com/posts'', ex_options\<lparr>o_signal := Some 0\<rparr>)],
       fs_delays = []\<rparr>)"
  by (simp add: ex_retry_config transport_attempt_def ex_answers_def ex_options_def
      new_AbortController_def is_aborted_def)

lemma ex_first_fetch:
  "fetchWithRetry (retry_config (prepare 10 ex_get_cfg)) (ex_answers (ex_reply True 200 ''hi'')) 0 [] =
     (Returned (ex_reply True 200 ''hi'') 40,
      \<lparr>fs_store = [\<lparr>ctl_aborted = False, ctl_listeners = []\<rparr>],
       fs_calls = [(''https://api.example.com/posts'', ex_options\<lparr>o_signal := Some 0\<rparr>)],
       fs_delays = []\<rparr>)"
  unfolding fetchWithRetry_def
  using loop_return [where env = "ex_answers (ex_reply True 200 ''hi'')" and n = 0,
      OF ex_first_attempt, of 0]
  by (simp add: ex_reply_def ex_answers_def)

lemma ex_shape:
  "shape_response ex_hooks (build_response ex_get_cfg (ex_reply True 200 ''hi'') 40) = ex_shaped"
  by (simp add: shape_response_def build_response_def parse_data_def headers_get_def ex_reply_def
      toLowerCase_def lower_char_def lower_letters_def upper_letters_def
      applyTransformResponse_def transform_step_def intercept_def applyResponseInterceptors_def ex_hooks_def ex_conf_def
      ex_exclaim_def ex_stamp_def ex_shaped_def)

lemma ex_cache_write:
  "cache_write (prepare 10 ex_get_cfg) 1000 ex_shaped
     (absorb \<lparr>fs_store = [\<lparr>ctl_aborted = False, ctl_listeners = []\<rparr>],
              fs_calls = [(''https://api.example.com/posts'', ex_options\<lparr>o_signal := Some 0\<rparr>)],
              fs_delays = []\<rparr> ex_world) = ex_cached_world"
  by (simp add: cache_write_def ex_prepare ex_get_cfg_fields absorb_def ex_world_def
      ex_cached_world_def)

lemma ex_first_task:
  "task ex_hooks (prepare 10 ex_get_cfg) (ex_answers (ex_reply True 200 ''hi'')) 0 1000 ex_world =
     (Success ex_shaped, ex_cached_world)"
proof -
  have c: "controllers ex_world = []" by (simp add: ex_world_def)
  have p: "p_cfg (prepare 10 ex_get_cfg) = ex_get_cfg" by (simp add: prepare_def)
  have ok: "res_ok (ex_reply True 200 ''hi'')" by (simp add: ex_reply_def)
  show ?thesis
    using task_ok [of "prepare 10 ex_get_cfg" "ex_answers (ex_reply True 200 ''hi'')" 0 ex_world
      "ex_reply True 200 ''hi''" 40 ex_hooks 1000]
    unfolding c ex_first_fetch p ex_shape
    using ok by (simp add: ex_cache_write)
qed

lemma ex_serve_cached:
  "serve_cached ex_hooks ex_shaped = ex_shaped\<lparr>r_data := JStr ''hi!!''\<rparr>"
  by (simp add: serve_cached_def applyTransformResponse_def transform_step_def intercept_def applyResponseInterceptors_def
      ex_hooks_def ex_conf_def ex_exclaim_def ex_stamp_def ex_shaped_def)

lemma ex_second_lookup:
  "handleFetchRaw ex_hooks 2000 ''get'' ''/posts'' ex_cache_opts ex_cached_world =
     (Hit (ex_shaped\<lparr>r_data := JStr ''hi!!''\<rparr>),
      ex_cached_world)"
  by (simp add: handleFetchRaw_def ex_request_config ex_no_request_hooks ex_get_cfg_fields
      ex_prepare getCached_def ex_serve_cached)
     (simp add: ex_cached_world_def ex_serve_cached)

lemma shape_response_globalErrors [simp]:
  "shape_response (conf\<lparr>globalErrors := hs\<rparr>) r = shape_response conf r"
  by (simp add: shape_response_def applyResponseInterceptors_def applyTransformResponse_def)

lemma handler_log_runGlobalErrors [simp]:
  "handler_log (runGlobalErrors conf err c w) =
     handler_log w @ run_handlers 0 (globalErrors conf) err c"
  by (simp add: runGlobalErrors_def)

lemma task_result_globalErrors:
  "fst (task (conf\<lparr>globalErrors := hs\<rparr>) p env start now w) = fst (task conf p env start now w)"
proof (cases "fetchWithRetry (retry_config p) env start (controllers w)")
  case (Pair out s)
  then show ?thesis
    by (cases out) (simp_all add: task_def Let_def)
qed

text \<open>
  Claim C1. The task of a request always returns a value, the value the request's
  promise resolves to. When \<^verbatim>\<open>fetchWithRetry\<close> throws, that value is the failure
  \<^verbatim>\<open>{ok: false, status: 0, data: null, error, config}\<close>; when it returns a reply whose
  status is an error, the value is the failure with the reply's status, the shaped data
  and an HTTP error. In both cases every registered global handler is called once, in
  order of registration, with the error and the config, whether or not an earlier
  handler threw, and the handlers do not change the value returned. When the reply is
  ok no handler is called, whatever the hooks do; and the part of the handler that runs
  the request hooks and looks the cache up calls no handler at all.
\<close>

theorem failures_resolve:
  "(fst (fetchWithRetry (retry_config p) env start (controllers w)) = Threw err \<longrightarrow>
      fst (task conf p env start now w) =
        Failure \<lparr>f_ok = False, f_status = 0, f_data = JNull, f_error = err, f_config = p_cfg p\<rparr> \<and>
      handler_log (snd (task conf p env start now w)) =
        handler_log w @ run_handlers 0 (globalErrors conf) err (p_cfg p)) \<and>
   (fst (fetchWithRetry (retry_config p) env start (controllers w)) = Returned res d \<and>
    \<not> res_ok res \<longrightarrow>
      fst (task conf p env start now w) =
        Failure \<lparr>f_ok = False, f_status = res_status res,
                 f_data = r_data (shape_response conf (build_response (p_cfg p) res d)),
                 f_error = http_error res (shape_response conf (build_response (p_cfg p) res d)),
                 f_config = p_cfg p\<rparr> \<and>
      handler_log (snd (task conf p env start now w)) =
        handler_log w @ run_handlers 0 (globalErrors conf)
          (http_error res (shape_response conf (build_response (p_cfg p) res d))) (p_cfg p)) \<and>
   (fst (fetchWithRetry (retry_config p) env start (controllers w)) = Returned res d \<and>
    res_ok res \<longrightarrow>
      fst (task conf p env start now w) =
        Success (shape_response conf (build_response (p_cfg p) res d)) \<and>
      handler_log (snd (task conf p env start now w)) = handler_log w) \<and>
   length (run_handlers 0 (globalErrors conf) e c) = length (globalErrors conf) \<and>
   (\<forall>k < length (globalErrors conf).
      run_handlers 0 (globalErrors conf) e c ! k = (k, e, c, (globalErrors conf ! k) e c)) \<and>
   fst (task (conf\<lparr>globalErrors := hs\<rparr>) p env start now w) = fst (task conf p env start now w) \<and>
   handler_log (snd (handleFetchRaw conf now m u op w)) = handler_log w"
proof (intro conjI impI allI)
  assume "fst (fetchWithRetry (retry_config p) env start (controllers w)) = Threw err"
  from task_threw [OF this, of conf now]
  show "fst (task conf p env start now w) =
        Failure \<lparr>f_ok = False, f_status = 0, f_data = JNull, f_error = err, f_config = p_cfg p\<rparr>"
    and "handler_log (snd (task conf p env start now w)) =
        handler_log w @ run_handlers 0 (globalErrors conf) err (p_cfg p)"
    by simp_all
next
  assume "fst (fetchWithRetry (retry_config p) env start (controllers w)) = Returned res d \<and>
    \<not> res_ok res"
  then have "fst (fetchWithRetry (retry_config p) env start (controllers w)) = Returned res d"
    and "\<not> res_ok res" by simp_all
  from task_http_error [OF this, of conf now]
  show "fst (task conf p env start now w) =
        Failure \<lparr>f_ok = False, f_status = res_status res,
                 f_data = r_data (shape_response conf (build_response (p_cfg p) res d)),
                 f_error = http_error res (shape_response conf (build_response (p_cfg p) res d)),
                 f_config = p_cfg p\<rparr>"
    and "handler_log (snd (task conf p env start now w)) =
        handler_log w @ run_handlers 0 (globalErrors conf)
          (http_error res (shape_response conf (build_response (p_cfg p) res d))) (p_cfg p)"
    by simp_all
next
  assume "fst (fetchWithRetry (retry_config p) env start (controllers w)) = Returned res d \<and>
    res_ok res"
  then have "fst (fetchWithRetry (retry_config p) env start (controllers w)) = Returned res d"
    and "res_ok res" by simp_all
  from task_ok [OF this, of conf now]
  show "fst (task conf p env start now w) =
        Success (shape_response conf (build_response (p_cfg p) res d))"
    and "handler_log (snd (task conf p env start now w)) = handler_log w"
    by simp_all
next
  fix k assume "k < length (globalErrors conf)"
  then show "run_handlers 0 (globalErrors conf) e c ! k = (k, e, c, (globalErrors conf ! k) e c)"
    by (simp add: run_handlers_entries)
qed (simp_all add: task_result_globalErrors handler_log_handleFetchRaw)

lemma ex_offline_attempt:
  "transport_attempt (retry_config (prepare 10 ex_get_cfg)) (ex_offline k)
     \<lparr>fs_store = [], fs_calls = [], fs_delays = []\<rparr> =
   (Rejects ''TypeError'' ''Failed to fetch'', False,
      \<lparr>fs_store = [\<lparr>ctl_aborted = False, ctl_listeners = []\<rparr>],
       fs_calls = [(''https://api.example.com/posts'', ex_options\<lparr>o_signal := Some 0\<rparr>)],
       fs_delays = []\<rparr>)"
  by (simp add: ex_retry_config transport_attempt_def ex_offline_def ex_options_def
      new_AbortController_def is_aborted_def)

lemma ex_offline_fetch:
  "fetchWithRetry (retry_config (prepare 10 ex_get_cfg)) ex_offline 0 [] =
     (Threw (JsError ''TypeError'' ''Failed to fetch''),
      \<lparr>fs_store = [\<lparr>ctl_aborted = False, ctl_listeners = []\<rparr>],
       fs_calls = [(''https://api.example.com/posts'', ex_options\<lparr>o_signal := Some 0\<rparr>)],
       fs_delays = []\<rparr>)"
  unfolding fetchWithRetry_def
  using loop_reject_final [where env = ex_offline and n = 0, OF ex_offline_attempt, of 0]
  by (simp add: ex_retry_config)

lemma ex_refused_fetch:
  "fetchWithRetry (retry_config (prepare 10 ex_get_cfg)) (ex_answers (ex_reply False 500 ''oops'')) 0 [] =
     (Returned (ex_reply False 500 ''oops'') 40,
      \<lparr>fs_store = [\<lparr>ctl_aborted = False, ctl_listeners = []\<rparr>],
       fs_calls = [(''https://api.example.com/posts'', ex_options\<lparr>o_signal := Some 0\<rparr>)],
       fs_delays = []\<rparr>)"
  unfolding fetchWithRetry_def
  using loop_return [where env = "ex_answers (ex_reply False 500 ''oops'')" and n = 0,
      OF ex_first_attempt, of 0]
  by (simp add: ex_retry_config ex_answers_def)

lemma ex_refused_shape:
  "shape_response ex_conf
     (build_response ex_get_cfg (ex_reply False 500 ''oops'') 40) = ex_refused"
  "r_data ex_refused = JStr ''oops''"
  by (simp_all add: ex_refused_def shape_response_def build_response_def parse_data_def
      headers_get_def ex_reply_def toLowerCase_def lower_char_def lower_letters_def
      upper_letters_def applyTransformResponse_def applyResponseInterceptors_def ex_conf_def)

theorem failures_resolve_witness:
  "fst (task (ex_conf\<lparr>globalErrors := [\<lambda>e c. True, \<lambda>e c. False]\<rparr>) (prepare 10 ex_get_cfg)
          ex_offline 0 0 ex_world) =
     Failure \<lparr>f_ok = False, f_status = 0, f_data = JNull,
              f_error = JsError ''TypeError'' ''Failed to fetch'', f_config = ex_get_cfg\<rparr> \<and>
   handler_log (snd (task (ex_conf\<lparr>globalErrors := [\<lambda>e c. True, \<lambda>e c. False]\<rparr>)
          (prepare 10 ex_get_cfg) ex_offline 0 0 ex_world)) =
     [(0, JsError ''TypeError'' ''Failed to fetch'', ex_get_cfg, True),
      (1, JsError ''TypeError'' ''Failed to fetch'', ex_get_cfg, False)] \<and>
   fst (task (ex_conf\<lparr>globalErrors := [\<lambda>e c. True]\<rparr>) (prepare 10 ex_get_cfg)
          (ex_answers (ex_reply False 500 ''oops'')) 0 0 ex_world) =
     Failure \<lparr>f_ok = False, f_status = 500, f_data = JStr ''oops'',
              f_error = http_error (ex_reply False 500 ''oops'') ex_refused,
              f_config = ex_get_cfg\<rparr> \<and>
   handler_log (snd (task (ex_conf\<lparr>globalErrors := [\<lambda>e c. True]\<rparr>) (prepare 10 ex_get_cfg)
          (ex_answers (ex_reply False 500 ''oops'')) 0 0 ex_world)) =
     [(0, http_error (ex_reply False 500 ''oops'') ex_refused, ex_get_cfg, True)] \<and>
   fst (task (ex_hooks\<lparr>globalErrors := [\<lambda>e c. True]\<rparr>) (prepare 10 ex_get_cfg)
          (ex_answers (ex_reply True 200 ''hi'')) 0 0 ex_world) = Success ex_shaped \<and>
   handler_log (snd (task (ex_hooks\<lparr>globalErrors := [\<lambda>e c. True]\<rparr>) (prepare 10 ex_get_cfg)
          (ex_answers (ex_reply True 200 ''hi'')) 0 0 ex_world)) = []"
proof -
  have c: "controllers ex_world = []" "handler_log ex_world = []" by (simp_all add: ex_world_def)
  have p: "p_cfg (prepare 10 ex_get_cfg) = ex_get_cfg" by (simp add: prepare_def)
  have r: "res_ok (ex_reply True 200 ''hi'')" "\<not> res_ok (ex_reply False 500 ''oops'')"
    "res_status (ex_reply False 500 ''oops'') = 500"
    by (simp_all add: ex_reply_def)
  show ?thesis
    using failures_resolve [of "prepare 10 ex_get_cfg" ex_offline 0 ex_world
        "JsError ''TypeError'' ''Failed to fetch''"
        "ex_conf\<lparr>globalErrors := [\<lambda>e c. True, \<lambda>e c. False]\<rparr>" 0]
      failures_resolve [of "prepare 10 ex_get_cfg" "ex_answers (ex_reply False 500 ''oops'')" 0
        ex_world _ "ex_conf\<lparr>globalErrors := [\<lambda>e c. True]\<rparr>" 0 "ex_reply False 500 ''oops''" 40]
      failures_resolve [of "prepare 10 ex_get_cfg" "ex_answers (ex_reply True 200 ''hi'')" 0
        ex_world _ "ex_hooks\<lparr>globalErrors := [\<lambda>e c. True]\<rparr>" 0 "ex_reply True 200 ''hi''" 40]
    unfolding c ex_offline_fetch ex_refused_fetch ex_first_fetch p
    using r by (simp add: ex_shape ex_refused_shape)
qed

section \<open>Properties of the cache\<close>

lemma ex_hooks_no_request: "ex_hooks\<lparr>interceptors_request := []\<rparr> = ex_hooks"
  by (simp add: ex_hooks_def ex_conf_def)

lemma ex_first_request:
  "request ex_hooks 0 ''get'' ''/posts'' ex_cache_opts (ex_answers (ex_reply True 200 ''hi'')) 1000
     ex_world = (Success ex_shaped, ex_cached_world)"
  by (simp add: request_def ex_first_lookup ex_first_task)

lemma ex_second_request:
  "request ex_hooks 2000 ''get'' ''/posts'' ex_cache_opts env 2000 ex_cached_world =
     (Success (ex_shaped\<lparr>r_data := JStr ''hi!!''\<rparr>), ex_cached_world)"
  by (simp add: request_def ex_second_lookup)

theorem hook_chains_witness:
  "request (ex_hooks\<lparr>interceptors_request := [] @ ex_faulty # []\<rparr>) 0 ''get'' ''/posts''
     ex_cache_opts (ex_answers (ex_reply True 200 ''hi'')) 1000 ex_world =
   (Success ex_shaped, ex_cached_world) \<and>
   applyRequestInterceptors (ex_conf\<lparr>interceptors_request := [] @ ex_faulty # [ex_copy]\<rparr>)
     ex_get_cfg =
   applyRequestInterceptors (ex_conf\<lparr>interceptors_request := [] @ [ex_copy]\<rparr>) ex_get_cfg \<and>
   applyResponseInterceptors
     (ex_conf\<lparr>interceptors_response := [] @ (\<lambda>r. (r, Falsy)) # [ex_stamp]\<rparr>) ex_shaped =
   applyResponseInterceptors (ex_conf\<lparr>interceptors_response := [] @ [ex_stamp]\<rparr>) ex_shaped \<and>
   applyTransformRequest
     (ex_conf\<lparr>transformRequest := [] @ (\<lambda>d hs. ((d, hs), Throws)) #
        [\<lambda>d hs. ((d, hs), Gives (JStr ''x''))]\<rparr>) JNull [] =
   applyTransformRequest
     (ex_conf\<lparr>transformRequest := [] @ [\<lambda>d hs. ((d, hs), Gives (JStr ''x''))]\<rparr>) JNull [] \<and>
   applyTransformResponse
     (ex_conf\<lparr>transformResponse := [] @ (\<lambda>d r. ((d, r), Throws)) # [ex_exclaim]\<rparr>)
     (JStr ''hi'') ex_shaped =
   applyTransformResponse
     (ex_conf\<lparr>transformResponse := [] @ [ex_exclaim]\<rparr>) (JStr ''hi'') ex_shaped"
  using hook_chains [where f = ex_faulty and conf = ex_hooks and fs = "[]" and gs = "[]"
      and now = 0 and m = "''get''" and u = "''/posts''" and op = ex_cache_opts
      and env = "ex_answers (ex_reply True 200 ''hi'')" and now' = 1000 and w = ex_world
      and out = Throws]
    hook_chains [where f = ex_faulty and conf = ex_conf and fs = "[]"
      and gs = "[ex_copy]" and c = ex_get_cfg and out = Throws
      and g = "\<lambda>r. (r, Falsy)" and fs' = "[]" and gs' = "[ex_stamp]" and r = ex_shaped
      and out' = Falsy
      and tq = "\<lambda>d hs. ((d, hs), Throws)" and ts = "[]"
      and us = "[\<lambda>d hs. ((d, hs), Gives (JStr ''x''))]" and d = JNull and hs = "[]"
      and ?d1.0 = JNull and ?h1.0 = "[]" and outq = Throws]
    hook_chains [where tr = "\<lambda>d r. ((d, r), Throws)" and conf = ex_conf and ts' = "[]"
      and us' = "[ex_exclaim]" and d = "JStr ''hi''" and r = ex_shaped
      and d1' = "JStr ''hi''" and ?r1.0 = ex_shaped and outr = Throws]
  by (simp add: ex_hooks_no_request ex_first_request ex_faulty_def applyRequestInterceptors_def
      applyResponseInterceptors_def applyTransformRequest_def applyTransformResponse_def)

lemma prepare_fields [simp]:
  "p_cfg (prepare t c) = c" "p_cacheTTL (prepare t c) = t" "p_timeout (prepare t c) = c_timeout c"
  "p_options (prepare t c) = c_options c" "p_finalUrl (prepare t c) = c_url c"
  by (simp_all add: prepare_def)

lemma ex_meddled_lookup:
  "handleFetchRaw (ex_hooks\<lparr>interceptors_request := [ex_meddle]\<rparr>) 0 ''get'' ''/posts''
     ex_cache_opts ex_world =
   (Miss (prepare 10 (ex_get_cfg\<lparr>c_timeout := 5\<rparr>)), ex_world)"
  by (simp add: handleFetchRaw_def ex_request_config applyRequestInterceptors_def intercept_def
      ex_meddle_def ex_get_cfg_fields getCached_def ex_world_def)

lemma ex_meddled_attempt:
  "transport_attempt (retry_config (prepare 10 (ex_get_cfg\<lparr>c_timeout := 5\<rparr>))) (ex_slow k)
     \<lparr>fs_store = [], fs_calls = [], fs_delays = []\<rparr> =
   (Rejects ''AbortError'' ''The operation was aborted.'', True,
      \<lparr>fs_store = [\<lparr>ctl_aborted = True, ctl_listeners = []\<rparr>],
       fs_calls = [(''https://api.example.com/posts'', ex_options\<lparr>o_signal := Some 0\<rparr>)],
       fs_delays = []\<rparr>)"
  by (simp add: retry_config_def transport_attempt_def ex_slow_def ex_get_cfg_def ex_options_def
      new_AbortController_def abort_def fire.simps is_aborted_def)

lemma ex_plain_attempt:
  "transport_attempt (retry_config (prepare 10 ex_get_cfg)) (ex_slow k)
     \<lparr>fs_store = [], fs_calls = [], fs_delays = []\<rparr> =
   (Resolves (ex_reply True 200 ''hi''), False,
      \<lparr>fs_store = [\<lparr>ctl_aborted = False, ctl_listeners = []\<rparr>],
       fs_calls = [(''https://api.example.com/posts'', ex_options\<lparr>o_signal := Some 0\<rparr>)],
       fs_delays = []\<rparr>)"
  by (simp add: ex_retry_config transport_attempt_def ex_slow_def ex_options_def
      new_AbortController_def is_aborted_def)

lemma ex_meddled_request:
  "fst (request (ex_hooks\<lparr>interceptors_request := [ex_meddle]\<rparr>) 0 ''get'' ''/posts''
     ex_cache_opts ex_slow 1000 ex_world) =
   Failure \<lparr>f_ok = False, f_status = 0, f_data = JNull,
            f_error = JsError ''AbortError'' ''The operation was aborted.'',
            f_config = ex_get_cfg\<lparr>c_timeout := 5\<rparr>\<rparr>"
proof -
  have c: "controllers ex_world = []" by (simp add: ex_world_def)
  have "fst (fetchWithRetry (retry_config (prepare 10 (ex_get_cfg\<lparr>c_timeout := 5\<rparr>))) ex_slow 0
      (controllers ex_world)) = Threw (JsError ''AbortError'' ''The operation was aborted.'')"
    unfolding c fetchWithRetry_def
    using loop_abort [where env = ex_slow and n = 0, OF ex_meddled_attempt, of 0] by simp
  from task_threw [OF this, of ex_hooks 1000] show ?thesis
    by (simp add: request_def ex_meddled_lookup)
qed

lemma ex_plain_request:
  "fst (request (ex_hooks\<lparr>interceptors_request := []\<rparr>) 0 ''get'' ''/posts''
     ex_cache_opts ex_slow 1000 ex_world) = Success ex_shaped"
proof -
  have c: "controllers ex_world = []" by (simp add: ex_world_def)
  have ok: "res_ok (ex_reply True 200 ''hi'')" by (simp add: ex_reply_def)
  have "fst (fetchWithRetry (retry_config (prepare 10 ex_get_cfg)) ex_slow 0
      (controllers ex_world)) = Returned (ex_reply True 200 ''hi'') 40"
    unfolding c fetchWithRetry_def
    using loop_return [where env = ex_slow and n = 0, OF ex_plain_attempt, of 0]
    by (simp add: ex_reply_def ex_slow_def)
  from task_ok [OF this ok, of ex_hooks 1000] show ?thesis
    by (simp add: request_def ex_hooks_no_request ex_first_lookup ex_shape)
qed

text \<open>
  Claim C8 as stated fails for a function that changes its argument before it throws.
  The request interceptor \<^verbatim>\<open>ex_meddle\<close> sets \<^verbatim>\<open>cfg.timeout = 5\<close> and throws. The interceptor
  registered after it is handed a config with the timeout 5, not the 0 of the config
  before the fault; and a request whose transport answers after more than 5 ms is
  aborted by the timer and resolves to a failure, where the same request without the
  faulting interceptor has no timer and succeeds.
\<close>

theorem faulting_hook_counterexample:
  "ex_meddle ex_get_cfg = (ex_get_cfg\<lparr>c_timeout := 5\<rparr>, Throws) \<and>
   c_timeout ex_get_cfg = 0 \<and>
   applyRequestInterceptors (ex_hooks\<lparr>interceptors_request := [ex_meddle, ex_copy]\<rparr>) ex_get_cfg =
     ex_get_cfg\<lparr>c_timeout := 5, c_retries := 5\<rparr> \<and>
   applyRequestInterceptors (ex_hooks\<lparr>interceptors_request := [ex_copy]\<rparr>) ex_get_cfg =
     ex_get_cfg\<lparr>c_retries := 0\<rparr> \<and>
   fst (request (ex_hooks\<lparr>interceptors_request := [ex_meddle]\<rparr>) 0 ''get'' ''/posts''
          ex_cache_opts ex_slow 1000 ex_world) =
     Failure \<lparr>f_ok = False, f_status = 0, f_data = JNull,
              f_error = JsError ''AbortError'' ''The operation was aborted.'',
              f_config = ex_get_cfg\<lparr>c_timeout := 5\<rparr>\<rparr> \<and>
   fst (request (ex_hooks\<lparr>interceptors_request := []\<rparr>) 0 ''get'' ''/posts''
          ex_cache_opts ex_slow 1000 ex_world) = Success ex_shaped"
  by (simp add: ex_meddled_request ex_plain_request)
     (simp add: applyRequestInterceptors_def intercept_def ex_meddle_def ex_copy_def ex_get_cfg_def)

lemma getCached_live:
  "memoryCache w key = Some \<lparr>ce_value = v, ce_expiresAt = Some e\<rparr> \<Longrightarrow> now \<le> e \<Longrightarrow>
   getCached now key w = (Some v, w)"
  by (simp add: getCached_def)

lemma getCached_expired:
  "memoryCache w key = Some \<lparr>ce_value = v, ce_expiresAt = Some e\<rparr> \<Longrightarrow> e \<noteq> 0 \<Longrightarrow> e < now \<Longrightarrow>
   getCached now key w = (None, w\<lparr>memoryCache := (memoryCache w)(key := None)\<rparr>)"
  by (simp add: getCached_def)

lemma handleFetchRaw_hit:
  assumes "request_config conf m u op (controllers w) = (cfirst, st)"
    and "p = prepare (c_cacheTTL cfirst) (applyRequestInterceptors conf cfirst)"
    and "c_method (p_cfg p) = ''GET''" "0 < p_cacheTTL p"
    and "memoryCache w (p_cacheKey p) = Some \<lparr>ce_value = v, ce_expiresAt = Some e\<rparr>"
    and "now \<le> e"
  shows "handleFetchRaw conf now m u op w = (Hit (serve_cached conf v), w\<lparr>controllers := st\<rparr>)"
proof -
  have "getCached now (p_cacheKey p) (w\<lparr>controllers := st\<rparr>) = (Some v, w\<lparr>controllers := st\<rparr>)"
    using assms(5,6) by (intro getCached_live) simp_all
  with assms(1-4) show ?thesis
    by (simp add: handleFetchRaw_def Let_def)
qed

lemma handleFetchRaw_expired:
  assumes "request_config conf m u op (controllers w) = (cfirst, st)"
    and "p = prepare (c_cacheTTL cfirst) (applyRequestInterceptors conf cfirst)"
    and "c_method (p_cfg p) = ''GET''" "0 < p_cacheTTL p"
    and "memoryCache w (p_cacheKey p) = Some \<lparr>ce_value = v, ce_expiresAt = Some e\<rparr>"
    and "e \<noteq> 0" "e < now"
  shows "handleFetchRaw conf now m u op w =
     (Miss p, w\<lparr>controllers := st, memoryCache := (memoryCache w)(p_cacheKey p := None)\<rparr>)"
proof -
  have "getCached now (p_cacheKey p) (w\<lparr>controllers := st\<rparr>) =
      (None, w\<lparr>controllers := st, memoryCache := (memoryCache w)(p_cacheKey p := None)\<rparr>)"
    using assms(5-7) getCached_expired [of "w\<lparr>controllers := st\<rparr>" "p_cacheKey p" v e now]
    by simp
  with assms(1-4) show ?thesis
    by (simp add: handleFetchRaw_def Let_def)
qed

lemma transport_log_getCached [simp]: "transport_log (snd (getCached now key w)) = transport_log w"
  by (simp add: getCached_def split: option.split)

lemma transport_log_handleFetchRaw:
  "transport_log (snd (handleFetchRaw conf now m u op w)) = transport_log w"
proof -
  obtain cfirst st where rc: "request_config conf m u op (controllers w) = (cfirst, st)"
    by (cases "request_config conf m u op (controllers w)")
  let ?p = "prepare (c_cacheTTL cfirst) (applyRequestInterceptors conf cfirst)"
  obtain hit w2 where gc: "getCached now (p_cacheKey ?p) (w\<lparr>controllers := st\<rparr>) = (hit, w2)"
    by (cases "getCached now (p_cacheKey ?p) (w\<lparr>controllers := st\<rparr>)")
  have "transport_log w2 = transport_log w"
    using transport_log_getCached [of now "p_cacheKey ?p" "w\<lparr>controllers := st\<rparr>"] gc by simp
  with rc gc show ?thesis
    by (cases hit) (simp_all add: handleFetchRaw_def Let_def)
qed

lemma transport_log_task:
  "length (transport_log w) < length (transport_log (snd (task conf p env start now w)))"
proof -
  obtain out s where f: "fetchWithRetry (retry_config p) env start (controllers w) = (out, s)"
    by (cases "fetchWithRetry (retry_config p) env start (controllers w)")
  from loop_calls_bound [of "\<lparr>fs_store = controllers w, fs_calls = [], fs_delays = []\<rparr>"
      "retry_config p" env start 0] f
  have "0 < length (fs_calls s)" by (simp add: fetchWithRetry_def)
  with f show ?thesis
    by (cases out) (simp_all add: task_def Let_def runGlobalErrors_def absorb_def cache_write_def)
qed

lemma serve_cached_no_hooks:
  "interceptors_response conf = [] \<Longrightarrow> transformResponse conf = [] \<Longrightarrow> serve_cached conf v = v"
  by (simp add: serve_cached_def applyResponseInterceptors_def applyTransformResponse_def)

lemma task_writes_cache:
  assumes "fst (fetchWithRetry (retry_config p) env start (controllers w)) = Returned res d"
    and "res_ok res" and "c_method (p_cfg p) = ''GET''" and "0 < p_cacheTTL p"
  shows "memoryCache (snd (task conf p env start tw w)) (p_cacheKey p) =
     Some \<lparr>ce_value = shape_response conf (build_response (p_cfg p) res d),
           ce_expiresAt = Some (tw + p_cacheTTL p * 1000)\<rparr>"
  using task_ok [OF assms(1,2), of conf tw] assms(3,4)
  by (simp add: cache_write_def)

text \<open>
  Claim C5, as the code has it. Take a GET request with \<^verbatim>\<open>cache = T > 0\<close> whose fingerprint
  holds an entry that expires at \<^verbatim>\<open>e\<close>. Issued at an instant \<^verbatim>\<open>now\<close> not after \<^verbatim>\<open>e\<close>, the
  request makes no transport call and resolves to the cached response passed once more
  through the response hooks, which is \<^verbatim>\<open>serve_cached\<close> (the cached response itself when
  no response hook is registered). Issued after \<^verbatim>\<open>e\<close>, it finds the entry expired, deletes it at the lookup and hands its task to the queue, and the task
  makes a new transport call when it runs. The entry is written by the task of an earlier
  request when its reply is ok, at the instant \<^verbatim>\<open>tw\<close> of that reply, with
  \<^verbatim>\<open>e = tw + 1000 * T\<close>.
\<close>

theorem cache_ttl:
  "(request_config conf m u op (controllers w) = (cfirst, st) \<and>
    p = prepare (c_cacheTTL cfirst) (applyRequestInterceptors conf cfirst) \<and>
    c_method (p_cfg p) = ''GET'' \<and> 0 < p_cacheTTL p \<and>
    memoryCache w (p_cacheKey p) = Some \<lparr>ce_value = v, ce_expiresAt = Some e\<rparr> \<and> e \<noteq> 0 \<longrightarrow>
      (now \<le> e \<longrightarrow>
         handleFetchRaw conf now m u op w = (Hit (serve_cached conf v), w\<lparr>controllers := st\<rparr>)) \<and>
      (e < now \<longrightarrow>
         handleFetchRaw conf now m u op w =
           (Miss p, w\<lparr>controllers := st, memoryCache := (memoryCache w)(p_cacheKey p := None)\<rparr>))) \<and>
   (fst (fetchWithRetry (retry_config q) env start (controllers w')) = Returned res d \<and>
    res_ok res \<and> c_method (p_cfg q) = ''GET'' \<and> 0 < p_cacheTTL q \<longrightarrow>
      fst (task conf q env start tw w') =
        Success (shape_response conf (build_response (p_cfg q) res d)) \<and>
      memoryCache (snd (task conf q env start tw w')) (p_cacheKey q) =
        Some \<lparr>ce_value = shape_response conf (build_response (p_cfg q) res d),
              ce_expiresAt = Some (tw + p_cacheTTL q * 1000)\<rparr>) \<and>
   transport_log (snd (handleFetchRaw conf now m u op w)) = transport_log w \<and>
   length (transport_log w') < length (transport_log (snd (task conf q env start tw w'))) \<and>
   (interceptors_response conf = [] \<and> transformResponse conf = [] \<longrightarrow> serve_cached conf v = v)"
proof (intro conjI impI)
  assume a: "request_config conf m u op (controllers w) = (cfirst, st) \<and>
    p = prepare (c_cacheTTL cfirst) (applyRequestInterceptors conf cfirst) \<and>
    c_method (p_cfg p) = ''GET'' \<and> 0 < p_cacheTTL p \<and>
    memoryCache w (p_cacheKey p) = Some \<lparr>ce_value = v, ce_expiresAt = Some e\<rparr> \<and> e \<noteq> 0"
  then have rc: "request_config conf m u op (controllers w) = (cfirst, st)"
    and pd: "p = prepare (c_cacheTTL cfirst) (applyRequestInterceptors conf cfirst)"
    and g: "c_method (p_cfg p) = ''GET''" and t: "0 < p_cacheTTL p"
    and mc: "memoryCache w (p_cacheKey p) = Some \<lparr>ce_value = v, ce_expiresAt = Some e\<rparr>"
    and ez: "e \<noteq> 0"
    by blast+
  {
    assume "now \<le> e"
    from handleFetchRaw_hit [OF rc pd g t mc this]
    show "handleFetchRaw conf now m u op w =
        (Hit (serve_cached conf v), w\<lparr>controllers := st\<rparr>)" .
  }
  {
    assume "e < now"
    from handleFetchRaw_expired [OF rc pd g t mc ez this]
    show "handleFetchRaw conf now m u op w =
        (Miss p, w\<lparr>controllers := st, memoryCache := (memoryCache w)(p_cacheKey p := None)\<rparr>)" .
  }
next
  assume b: "fst (fetchWithRetry (retry_config q) env start (controllers w')) = Returned res d \<and>
    res_ok res \<and> c_method (p_cfg q) = ''GET'' \<and> 0 < p_cacheTTL q"
  then show "fst (task conf q env start tw w') =
        Success (shape_response conf (build_response (p_cfg q) res d))"
    by (simp add: task_ok)
  from b show "memoryCache (snd (task conf q env start tw w')) (p_cacheKey q) =
        Some \<lparr>ce_value = shape_response conf (build_response (p_cfg q) res d),
              ce_expiresAt = Some (tw + p_cacheTTL q * 1000)\<rparr>"
    by (intro task_writes_cache) simp_all
next
  show "transport_log (snd (handleFetchRaw conf now m u op w)) = transport_log w"
    by (rule transport_log_handleFetchRaw)
  show "length (transport_log w') < length (transport_log (snd (task conf q env start tw w')))"
    by (rule transport_log_task)
next
  assume "interceptors_response conf = [] \<and> transformResponse conf = []"
  then show "serve_cached conf v = v"
    by (simp add: serve_cached_no_hooks)
qed

lemma ex_cached_entry:
  "memoryCache ex_cached_world ex_key = Some \<lparr>ce_value = ex_shaped, ce_expiresAt = Some 11000\<rparr>"
  by (simp add: ex_cached_world_def)

theorem cache_ttl_witness:
  "handleFetchRaw ex_hooks 2000 ''get'' ''/posts'' ex_cache_opts ex_cached_world =
     (Hit (serve_cached ex_hooks ex_shaped),
      ex_cached_world\<lparr>controllers := controllers ex_cached_world\<rparr>) \<and>
   handleFetchRaw ex_hooks 12000 ''get'' ''/posts'' ex_cache_opts ex_cached_world =
     (Miss (prepare 10 ex_get_cfg),
      ex_cached_world\<lparr>controllers := controllers ex_cached_world,
        memoryCache := (memoryCache ex_cached_world)(ex_key := None)\<rparr>) \<and>
   memoryCache (snd (task ex_hooks (prepare 10 ex_get_cfg) (ex_answers (ex_reply True 200 ''hi''))
        0 1000 ex_world)) ex_key =
     Some \<lparr>ce_value = ex_shaped, ce_expiresAt = Some 11000\<rparr> \<and>
   serve_cached ex_conf ex_shaped = ex_shaped"
proof -
  have c: "controllers ex_world = []" by (simp add: ex_world_def)
  have r: "res_ok (ex_reply True 200 ''hi'')" by (simp add: ex_reply_def)
  have h: "interceptors_response ex_conf = []" "transformResponse ex_conf = []"
    by (simp_all add: ex_conf_def)
  have p: "p_cfg (prepare 10 ex_get_cfg) = ex_get_cfg" "p_cacheKey (prepare 10 ex_get_cfg) = ex_key"
    "p_cacheTTL (prepare 10 ex_get_cfg) = 10"
    by (simp_all add: ex_prepare)
  show ?thesis
    using cache_ttl [where conf = ex_hooks and m = "''get''" and u = "''/posts''"
        and op = ex_cache_opts and w = ex_cached_world and cfirst = ex_get_cfg
        and st = "controllers ex_cached_world" and p = "prepare 10 ex_get_cfg"
        and v = ex_shaped and e = 11000 and now = 2000
        and q = "prepare 10 ex_get_cfg" and env = "ex_answers (ex_reply True 200 ''hi'')"
        and start = 0 and w' = ex_world and res = "ex_reply True 200 ''hi''" and d = 40
        and tw = 1000]
      cache_ttl [where conf = ex_hooks and m = "''get''" and u = "''/posts''"
        and op = ex_cache_opts and w = ex_cached_world and cfirst = ex_get_cfg
        and st = "controllers ex_cached_world" and p = "prepare 10 ex_get_cfg"
        and v = ex_shaped and e = 11000 and now = 12000]
      cache_ttl [where conf = ex_conf and v = ex_shaped]
    unfolding c ex_first_fetch p
    using r h
    by (simp add: ex_request_config ex_no_request_hooks ex_get_cfg_fields ex_cached_entry ex_shape p)
qed

text \<open>
  Claim C5 as stated fails where a response hook is registered: the first request caches
  the response with the data \<^verbatim>\<open>hi!\<close>; the second, two seconds later and served from the
  cache without a transport call, resolves to a response with the data \<^verbatim>\<open>hi!!\<close>, which is
  not the cached value.
\<close>

theorem cached_value_counterexample:
  "request ex_hooks 0 ''get'' ''/posts'' ex_cache_opts (ex_answers (ex_reply True 200 ''hi'')) 1000
     ex_world = (Success ex_shaped, ex_cached_world) \<and>
   memoryCache ex_cached_world ex_key = Some \<lparr>ce_value = ex_shaped, ce_expiresAt = Some 11000\<rparr> \<and>
   request ex_hooks 2000 ''get'' ''/posts'' ex_cache_opts ex_offline 2000 ex_cached_world =
     (Success (ex_shaped\<lparr>r_data := JStr ''hi!!''\<rparr>), ex_cached_world) \<and>
   r_data ex_shaped = JStr ''hi!'' \<and>
   ex_shaped\<lparr>r_data := JStr ''hi!!''\<rparr> \<noteq> ex_shaped"
  by (simp add: ex_first_request ex_second_request ex_cached_entry) (simp add: ex_shaped_def)

text \<open>
  Claim C7 at a cache hit, where the code runs the two response chains in the other
  order. The interceptor \<^verbatim>\<open>ex_stamp\<close> copies the data it is shown into \<^verbatim>\<open>statusText\<close>; the
  transform \<^verbatim>\<open>ex_exclaim\<close> appends an exclamation mark. Served from the cache, the response
  comes back with the data \<^verbatim>\<open>hi!!\<close> while the interceptor was shown \<^verbatim>\<open>hi!\<close>: it ran before
  the transform. The order of the network branch, transform then interceptors, shows the
  interceptor \<^verbatim>\<open>hi!!\<close> on the same response.
\<close>

theorem cache_hit_hook_order:
  "fst (handleFetchRaw ex_hooks 2000 ''get'' ''/posts'' ex_cache_opts ex_cached_world) =
     Hit (serve_cached ex_hooks ex_shaped) \<and>
   r_data (serve_cached ex_hooks ex_shaped) = JStr ''hi!!'' \<and>
   r_statusText (serve_cached ex_hooks ex_shaped) = ''hi!'' \<and>
   r_data (shape_response ex_hooks ex_shaped) = JStr ''hi!!'' \<and>
   r_statusText (shape_response ex_hooks ex_shaped) = ''hi!!''"
  by (simp add: ex_second_lookup ex_serve_cached)
     (simp add: shape_response_def applyTransformResponse_def transform_step_def intercept_def applyResponseInterceptors_def
        ex_hooks_def ex_conf_def ex_exclaim_def ex_stamp_def ex_shaped_def)

section \<open>Properties of the public verbs\<close>

lemma letters_disjoint: "set lower_letters \<inter> set upper_letters = {}"
  by (simp add: lower_letters_def upper_letters_def)

lemma letters_length: "length upper_letters = length lower_letters"
  by (simp add: lower_letters_def upper_letters_def)

lemma lower_char_not_upper: "lower_char c \<notin> set upper_letters"
proof (cases "map_of (zip upper_letters lower_letters) c")
  case None
  then have "c \<notin> set upper_letters"
    by (simp add: map_of_zip_is_None [OF letters_length])
  with None show ?thesis by (simp add: lower_char_def)
next
  case (Some l)
  then have "l \<in> set lower_letters"
    by (auto dest!: map_of_SomeD set_zip_rightD)
  with letters_disjoint have "l \<notin> set upper_letters" by blast
  with Some show ?thesis by (simp add: lower_char_def)
qed

lemma toLowerCase_no_upper: "set (toLowerCase s) \<inter> set upper_letters = {}"
  using lower_char_not_upper by (auto simp: toLowerCase_def)

lemma lower_char_idem: "lower_char (lower_char c) = lower_char c"
proof -
  have "lower_char c \<notin> set upper_letters" by (rule lower_char_not_upper)
  then have "map_of (zip upper_letters lower_letters) (lower_char c) = None"
    by (simp add: map_of_zip_is_None [OF letters_length])
  then show ?thesis by (simp add: lower_char_def [of "lower_char c"])
qed

lemma toLowerCase_idem: "toLowerCase (toLowerCase s) = toLowerCase s"
  by (simp add: toLowerCase_def lower_char_idem)

lemma toLowerCase_not_GET: "toLowerCase s \<noteq> ''GET''" "toLowerCase s \<noteq> ''HEAD''"
proof -
  have "CHR ''G'' \<in> set upper_letters" "CHR ''H'' \<in> set upper_letters"
    by (simp_all add: upper_letters_def)
  moreover have "CHR ''G'' \<in> set ''GET''" "CHR ''H'' \<in> set ''HEAD''" by simp_all
  ultimately show "toLowerCase s \<noteq> ''GET''" "toLowerCase s \<noteq> ''HEAD''"
    using toLowerCase_no_upper [of s] by (metis disjoint_iff)+
qed

lemma in_place_not_nullish: "\<not> nullish d \<Longrightarrow> \<not> nullish (in_place d d')"
  by (cases d; cases d') (simp_all add: nullish_def)

lemma transform_step_not_nullish:
  "\<not> nullish (fst cur) \<Longrightarrow> \<not> nullish (fst (transform_step f cur))"
proof -
  assume n: "\<not> nullish (fst cur)"
  obtain d b out where f: "f (fst cur) (snd cur) = ((d, b), out)"
    by (metis surj_pair)
  have "truthy v \<Longrightarrow> \<not> nullish v" for v by (auto simp: nullish_def)
  with n f show ?thesis
    by (cases out) (simp_all add: transform_step_def in_place_not_nullish)
qed

lemma applyTransformRequest_not_nullish:
  "\<not> nullish d \<Longrightarrow> \<not> nullish (fst (applyTransformRequest conf d hs))"
proof -
  have "\<not> nullish (fst cur) \<Longrightarrow> \<not> nullish (fst (fold transform_step fs cur))"
    for fs and cur :: "jsval \<times> headers"
    by (induction fs arbitrary: cur) (simp_all add: transform_step_not_nullish)
  from this [of "(d, hs)"] show "\<not> nullish d \<Longrightarrow> \<not> nullish (fst (applyTransformRequest conf d hs))"
    by (simp add: applyTransformRequest_def)
qed

lemma applyTransformRequest_none:
  "transformRequest conf = [] \<Longrightarrow> applyTransformRequest conf d hs = (d, hs)"
  by (simp add: applyTransformRequest_def)

lemma build_options_body:
  assumes "\<not> nullish body" "m \<noteq> ''GET''" "m \<noteq> ''HEAD''"
  shows "o_body (build_options m hs body) =
     (if (case find_content_type (assign [] hs) of
            Some k \<Rightarrow> (case map_of (assign [] hs) k of Some v \<Rightarrow> v | None \<Rightarrow> [])
          | None \<Rightarrow> []) \<noteq> [] \<and>
         str_includes (case find_content_type (assign [] hs) of
            Some k \<Rightarrow> (case map_of (assign [] hs) k of Some v \<Rightarrow> v | None \<Rightarrow> [])
          | None \<Rightarrow> []) ''application/json'' \<and> \<not> is_string body
      then JStr (JSON_stringify body) else body)"
    and "o_method (build_options m hs body) = toUpperCase m"
    and "o_headers (build_options m hs body) = assign [] hs"
  using assms by (simp_all add: build_options_def Let_def cong: option.case_cong)

lemma compose_signals_keeps:
  "o_body (fst (compose_signals op options st)) = o_body options"
  "o_method (fst (compose_signals op options st)) = o_method options"
  "o_headers (fst (compose_signals op options st)) = o_headers options"
  by (simp_all add: compose_signals_def Let_def new_AbortController_def split: option.split)

lemma request_config_options:
  assumes "applyTransformRequest conf (case op_body op of Some b \<Rightarrow> b | None \<Rightarrow> op_data op)
      (assign (assign [] (def_headers conf)) (case op_headers op of Some h \<Rightarrow> h | None \<Rightarrow> [])) =
      (body, hs)"
  shows "c_options (fst (request_config conf m u op st)) =
      fst (compose_signals op (build_options m hs body) st)"
  using assms
  by (cases "compose_signals op (build_options m hs body) st")
     (simp add: request_config_def Let_def)

lemma request_config_body:
  assumes t: "applyTransformRequest conf (case op_body op of Some b \<Rightarrow> b | None \<Rightarrow> op_data op)
      (assign (assign [] (def_headers conf)) (case op_headers op of Some h \<Rightarrow> h | None \<Rightarrow> [])) =
      (body, hs)"
    and n: "\<not> nullish (case op_body op of Some b \<Rightarrow> b | None \<Rightarrow> op_data op)"
    and m: "m \<noteq> ''GET''" "m \<noteq> ''HEAD''"
  shows "\<not> nullish body"
    and "o_body (c_options (fst (request_config conf m u op st))) =
     (if (case find_content_type (assign [] hs) of
            Some k \<Rightarrow> (case map_of (assign [] hs) k of Some v \<Rightarrow> v | None \<Rightarrow> [])
          | None \<Rightarrow> []) \<noteq> [] \<and>
         str_includes (case find_content_type (assign [] hs) of
            Some k \<Rightarrow> (case map_of (assign [] hs) k of Some v \<Rightarrow> v | None \<Rightarrow> [])
          | None \<Rightarrow> []) ''application/json'' \<and> \<not> is_string body
      then JStr (JSON_stringify body) else body)"
    and "\<not> nullish (o_body (c_options (fst (request_config conf m u op st))))"
    and "o_method (c_options (fst (request_config conf m u op st))) = toUpperCase m"
    and "o_headers (c_options (fst (request_config conf m u op st))) = assign [] hs"
proof -
  from applyTransformRequest_not_nullish [OF n, of conf
      "assign (assign [] (def_headers conf)) (case op_headers op of Some h \<Rightarrow> h | None \<Rightarrow> [])"] t
  show b: "\<not> nullish body" by simp
  note c = request_config_options [OF t, of m u st]
  from build_options_body [OF b m, of hs]
  show "o_body (c_options (fst (request_config conf m u op st))) =
     (if (case find_content_type (assign [] hs) of
            Some k \<Rightarrow> (case map_of (assign [] hs) k of Some v \<Rightarrow> v | None \<Rightarrow> [])
          | None \<Rightarrow> []) \<noteq> [] \<and>
         str_includes (case find_content_type (assign [] hs) of
            Some k \<Rightarrow> (case map_of (assign [] hs) k of Some v \<Rightarrow> v | None \<Rightarrow> [])
          | None \<Rightarrow> []) ''application/json'' \<and> \<not> is_string body
      then JStr (JSON_stringify body) else body)"
    and "o_method (c_options (fst (request_config conf m u op st))) = toUpperCase m"
    and "o_headers (c_options (fst (request_config conf m u op st))) = assign [] hs"
    unfolding c by (simp_all add: compose_signals_keeps)
  then show "\<not> nullish (o_body (c_options (fst (request_config conf m u op st))))"
    using b by (simp add: nullish_def)
qed

lemma request_config_not_nullish:
  assumes "\<not> nullish (case op_body op of Some b \<Rightarrow> b | None \<Rightarrow> op_data op)"
    and "m \<noteq> ''GET''" "m \<noteq> ''HEAD''"
  shows "\<not> nullish (o_body (c_options (fst (request_config conf m u op st))))"
    and "o_method (c_options (fst (request_config conf m u op st))) = toUpperCase m"
proof -
  obtain body hs where "applyTransformRequest conf
      (case op_body op of Some b \<Rightarrow> b | None \<Rightarrow> op_data op)
      (assign (assign [] (def_headers conf)) (case op_headers op of Some h \<Rightarrow> h | None \<Rightarrow> [])) =
      (body, hs)"
    by (metis surj_pair)
  from request_config_body(3,4) [OF this assms]
  show "\<not> nullish (o_body (c_options (fst (request_config conf m u op st))))"
    and "o_method (c_options (fst (request_config conf m u op st))) = toUpperCase m"
    by simp_all
qed

lemma api_request_method:
  "\<exists>u' op'. api_request options = Call (toLowerCase (or_str (op_method options) ''GET'')) u' op'"
  by (simp add: api_request_def Let_def verb_plain_def verb_body_def)

lemma api_request_plain:
  "toLowerCase (or_str (op_method ro) ''GET'') \<in> {''get'', ''head''} \<Longrightarrow>
   api_request ro =
     Call (toLowerCase (or_str (op_method ro) ''GET''))
       (or_str (op_url ro) (or_str (op_path ro) (or_str (op_pathname ro) []))) ro"
  by (auto simp: api_request_def Let_def verb_plain_def)

lemma lower_literal:
  "toLowerCase ''get'' = ''get''" "toLowerCase ''head'' = ''head''"
  "toLowerCase ''delete'' = ''delete''" "toLowerCase ''post'' = ''post''"
  "toLowerCase ''put'' = ''put''" "toLowerCase ''patch'' = ''patch''"
  by (simp_all add: toLowerCase_def lower_char_def upper_letters_def lower_letters_def)

lemma upper_literal: "toUpperCase ''get'' = ''GET''" "toUpperCase ''head'' = ''HEAD''"
  by (simp_all add: toUpperCase_def upper_char_def upper_letters_def lower_letters_def)

text \<open>
  Claim C10. Every call of the core handler made by a verb wrapper or by \<^verbatim>\<open>api.request\<close>
  passes the method in lower case, so the method is neither \<^verbatim>\<open>"GET"\<close> nor \<^verbatim>\<open>"HEAD"\<close> and
  the guard on the body reduces to \<^verbatim>\<open>body != null\<close>; \<^verbatim>\<open>api.request\<close> with the method GET or
  HEAD, in any case of the letters, makes the call of \<^verbatim>\<open>api.get\<close> or \<^verbatim>\<open>api.head\<close> with the
  same options. Take \<^verbatim>\<open>api.get\<close> or \<^verbatim>\<open>api.head\<close> called with options whose body (\<^verbatim>\<open>opts.body\<close>
  when the key is there, \<^verbatim>\<open>opts.data\<close> otherwise) is neither null nor undefined, and let
  \<^verbatim>\<open>body\<close> and \<^verbatim>\<open>hs\<close> be that body and the merged headers as the request transforms leave
  them (the supplied body and the merged headers themselves when no request transform is
  registered). Then the transport options of the config that the handler builds have the
  method GET or HEAD and carry the body: \<^verbatim>\<open>JSON.stringify(body)\<close> when the content type
  among the headers includes \<^verbatim>\<open>application/json\<close> and \<^verbatim>\<open>body\<close> is not a string, and \<^verbatim>\<open>body\<close>
  itself otherwise. It is never dropped.
\<close>

theorem verbs_attach_body:
  "(case api_get u po of Call m u' op' \<Rightarrow> toLowerCase m = m \<and> m \<noteq> ''GET'' \<and> m \<noteq> ''HEAD'') \<and>
   (case api_head u po of Call m u' op' \<Rightarrow> toLowerCase m = m \<and> m \<noteq> ''GET'' \<and> m \<noteq> ''HEAD'') \<and>
   (case api_delete u po of Call m u' op' \<Rightarrow> toLowerCase m = m \<and> m \<noteq> ''GET'' \<and> m \<noteq> ''HEAD'') \<and>
   (case api_post u b po of Call m u' op' \<Rightarrow> toLowerCase m = m \<and> m \<noteq> ''GET'' \<and> m \<noteq> ''HEAD'') \<and>
   (case api_put u b po of Call m u' op' \<Rightarrow> toLowerCase m = m \<and> m \<noteq> ''GET'' \<and> m \<noteq> ''HEAD'') \<and>
   (case api_patch u b po of Call m u' op' \<Rightarrow> toLowerCase m = m \<and> m \<noteq> ''GET'' \<and> m \<noteq> ''HEAD'') \<and>
   (case api_request ro of Call m u' op' \<Rightarrow> toLowerCase m = m \<and> m \<noteq> ''GET'' \<and> m \<noteq> ''HEAD'') \<and>
   (toLowerCase (or_str (op_method ro) ''GET'') = ''get'' \<longrightarrow>
      api_request ro =
        api_get (or_str (op_url ro) (or_str (op_path ro) (or_str (op_pathname ro) []))) (Some ro)) \<and>
   (toLowerCase (or_str (op_method ro) ''GET'') = ''head'' \<longrightarrow>
      api_request ro =
        api_head (or_str (op_url ro) (or_str (op_path ro) (or_str (op_pathname ro) []))) (Some ro)) \<and>
   (\<not> nullish (case op_body op of Some x \<Rightarrow> x | None \<Rightarrow> op_data op) \<longrightarrow>
      (case api_get u (Some op) of Call m u' op' \<Rightarrow>
         \<not> nullish (o_body (c_options (fst (request_config conf m u' op' st)))) \<and>
         o_method (c_options (fst (request_config conf m u' op' st))) = ''GET'') \<and>
      (case api_head u (Some op) of Call m u' op' \<Rightarrow>
         \<not> nullish (o_body (c_options (fst (request_config conf m u' op' st)))) \<and>
         o_method (c_options (fst (request_config conf m u' op' st))) = ''HEAD'')) \<and>
   (\<not> nullish (case op_body op of Some x \<Rightarrow> x | None \<Rightarrow> op_data op) \<and>
    applyTransformRequest conf (case op_body op of Some x \<Rightarrow> x | None \<Rightarrow> op_data op)
      (assign (assign [] (def_headers conf)) (case op_headers op of Some h \<Rightarrow> h | None \<Rightarrow> [])) =
      (body, hs) \<and>
    ct = (case find_content_type (assign [] hs) of
            Some k \<Rightarrow> (case map_of (assign [] hs) k of Some v \<Rightarrow> v | None \<Rightarrow> [])
          | None \<Rightarrow> []) \<longrightarrow>
      \<not> nullish body \<and>
      (case api_get u (Some op) of Call m u' op' \<Rightarrow>
         o_body (c_options (fst (request_config conf m u' op' st))) =
           (if ct \<noteq> [] \<and> str_includes ct ''application/json'' \<and> \<not> is_string body
            then JStr (JSON_stringify body) else body) \<and>
         o_headers (c_options (fst (request_config conf m u' op' st))) = assign [] hs) \<and>
      (case api_head u (Some op) of Call m u' op' \<Rightarrow>
         o_body (c_options (fst (request_config conf m u' op' st))) =
           (if ct \<noteq> [] \<and> str_includes ct ''application/json'' \<and> \<not> is_string body
            then JStr (JSON_stringify body) else body) \<and>
         o_headers (c_options (fst (request_config conf m u' op' st))) = assign [] hs)) \<and>
   (transformRequest conf = [] \<longrightarrow> applyTransformRequest conf d hs' = (d, hs'))"
proof (intro conjI impI)
  obtain u' op' where "api_request ro = Call (toLowerCase (or_str (op_method ro) ''GET'')) u' op'"
    using api_request_method by blast
  then show "case api_request ro of
      Call m u' op' \<Rightarrow> toLowerCase m = m \<and> m \<noteq> ''GET'' \<and> m \<noteq> ''HEAD''"
    by (simp add: toLowerCase_idem toLowerCase_not_GET)
next
  assume "toLowerCase (or_str (op_method ro) ''GET'') = ''get''"
  then show "api_request ro =
        api_get (or_str (op_url ro) (or_str (op_path ro) (or_str (op_pathname ro) []))) (Some ro)"
    using api_request_plain [of ro] by (simp add: api_get_def verb_plain_def)
next
  assume "toLowerCase (or_str (op_method ro) ''GET'') = ''head''"
  then show "api_request ro =
        api_head (or_str (op_url ro) (or_str (op_path ro) (or_str (op_pathname ro) []))) (Some ro)"
    using api_request_plain [of ro] by (simp add: api_head_def verb_plain_def)
next
  assume body: "\<not> nullish (case op_body op of Some x \<Rightarrow> x | None \<Rightarrow> op_data op)"
  from request_config_not_nullish [OF body, of "''get''" conf u st]
  show "case api_get u (Some op) of Call m u' op' \<Rightarrow>
         \<not> nullish (o_body (c_options (fst (request_config conf m u' op' st)))) \<and>
         o_method (c_options (fst (request_config conf m u' op' st))) = ''GET''"
    by (simp add: api_get_def verb_plain_def upper_literal)
  from request_config_not_nullish [OF body, of "''head''" conf u st]
  show "case api_head u (Some op) of Call m u' op' \<Rightarrow>
         \<not> nullish (o_body (c_options (fst (request_config conf m u' op' st)))) \<and>
         o_method (c_options (fst (request_config conf m u' op' st))) = ''HEAD''"
    by (simp add: api_head_def verb_plain_def upper_literal)
next
  assume a: "\<not> nullish (case op_body op of Some x \<Rightarrow> x | None \<Rightarrow> op_data op) \<and>
    applyTransformRequest conf (case op_body op of Some x \<Rightarrow> x | None \<Rightarrow> op_data op)
      (assign (assign [] (def_headers conf)) (case op_headers op of Some h \<Rightarrow> h | None \<Rightarrow> [])) =
      (body, hs) \<and>
    ct = (case find_content_type (assign [] hs) of
            Some k \<Rightarrow> (case map_of (assign [] hs) k of Some v \<Rightarrow> v | None \<Rightarrow> [])
          | None \<Rightarrow> [])"
  then have n: "\<not> nullish (case op_body op of Some x \<Rightarrow> x | None \<Rightarrow> op_data op)"
    and t: "applyTransformRequest conf (case op_body op of Some x \<Rightarrow> x | None \<Rightarrow> op_data op)
      (assign (assign [] (def_headers conf)) (case op_headers op of Some h \<Rightarrow> h | None \<Rightarrow> [])) =
      (body, hs)"
    and ct: "ct = (case find_content_type (assign [] hs) of
            Some k \<Rightarrow> (case map_of (assign [] hs) k of Some v \<Rightarrow> v | None \<Rightarrow> [])
          | None \<Rightarrow> [])"
    by simp_all
  show "\<not> nullish body"
    using request_config_body(1) [OF t n, of "''get''"] by simp
  show "case api_get u (Some op) of Call m u' op' \<Rightarrow>
         o_body (c_options (fst (request_config conf m u' op' st))) =
           (if ct \<noteq> [] \<and> str_includes ct ''application/json'' \<and> \<not> is_string body
            then JStr (JSON_stringify body) else body) \<and>
         o_headers (c_options (fst (request_config conf m u' op' st))) = assign [] hs"
    using request_config_body(2,5) [OF t n, of "''get''" u st]
    unfolding ct by (simp add: api_get_def verb_plain_def)
  show "case api_head u (Some op) of Call m u' op' \<Rightarrow>
         o_body (c_options (fst (request_config conf m u' op' st))) =
           (if ct \<noteq> [] \<and> str_includes ct ''application/json'' \<and> \<not> is_string body
            then JStr (JSON_stringify body) else body) \<and>
         o_headers (c_options (fst (request_config conf m u' op' st))) = assign [] hs"
    using request_config_body(2,5) [OF t n, of "''head''" u st]
    unfolding ct by (simp add: api_head_def verb_plain_def)
next
  assume "transformRequest conf = []"
  then show "applyTransformRequest conf d hs' = (d, hs')"
    by (rule applyTransformRequest_none)
qed (simp_all add: api_get_def api_head_def api_delete_def api_post_def api_put_def api_patch_def
      verb_plain_def verb_body_def Let_def lower_literal)

lemma ex_show_one: "show_int 1 = ''1''"
  by (simp add: show_int_def js_number_exact number_digits_def shortest_decimal_def
      digits.simps digit_chars_def Let_def)

lemma ex_json_object:
  "JSON_stringify (JObj [(''a'', JNum 1)]) =
     [CHR ''{'', CHR 0x22, CHR ''a'', CHR 0x22, CHR '':'', CHR ''1'', CHR ''}'']"
  by (simp add: ex_show_one own_properties_def is_index_def digit_chars_def quote_def
      json_escapes_def)

theorem verbs_attach_body_witness:
  "api_get ''/posts'' (Some (no_opts\<lparr>op_data := JStr ''x''\<rparr>)) =
     Call ''get'' ''/posts'' (no_opts\<lparr>op_data := JStr ''x''\<rparr>) \<and>
   o_body (c_options (fst (request_config ex_conf ''get'' ''/posts''
        (no_opts\<lparr>op_data := JStr ''x''\<rparr>) []))) = JStr ''x'' \<and>
   o_method (c_options (fst (request_config ex_conf ''get'' ''/posts''
        (no_opts\<lparr>op_data := JStr ''x''\<rparr>) []))) = ''GET'' \<and>
   o_body (c_options (fst (request_config ex_conf ''head'' ''/posts'' ex_json_opts []))) =
     JStr [CHR ''{'', CHR 0x22, CHR ''a'', CHR 0x22, CHR '':'', CHR ''1'', CHR ''}''] \<and>
   o_method (c_options (fst (request_config ex_conf ''head'' ''/posts'' ex_json_opts []))) =
     ''HEAD'' \<and>
   api_request (no_opts\<lparr>op_method := Some ''GET'', op_url := Some ''/posts'',
        op_data := JStr ''x''\<rparr>) =
     api_get ''/posts'' (Some (no_opts\<lparr>op_method := Some ''GET'', op_url := Some ''/posts'',
        op_data := JStr ''x''\<rparr>)) \<and>
   api_request (no_opts\<lparr>op_method := Some ''Head'', op_url := Some ''/posts''\<rparr>) =
     api_head ''/posts'' (Some (no_opts\<lparr>op_method := Some ''Head'', op_url := Some ''/posts''\<rparr>)) \<and>
   applyTransformRequest ex_conf (JStr ''x'') [] = (JStr ''x'', [])"
proof -
  let ?o = "no_opts\<lparr>op_data := JStr ''x''\<rparr>"
  let ?r = "no_opts\<lparr>op_method := Some ''GET'', op_url := Some ''/posts'', op_data := JStr ''x''\<rparr>"
  let ?h = "no_opts\<lparr>op_method := Some ''Head'', op_url := Some ''/posts''\<rparr>"
  have t: "transformRequest ex_conf = []" "def_headers ex_conf = []" by (simp_all add: ex_conf_def)
  have o: "op_body ?o = None" "op_data ?o = JStr ''x''" "op_headers ?o = None"
    by (simp_all add: no_opts_def)
  have j: "op_body ex_json_opts = Some (JObj [(''a'', JNum 1)])"
    "op_headers ex_json_opts = Some [(''Content-Type'', ''application/json'')]"
    by (simp_all add: ex_json_opts_def no_opts_def)
  have r: "toLowerCase (or_str (op_method ?r) ''GET'') = ''get''"
    "or_str (op_url ?r) (or_str (op_path ?r) (or_str (op_pathname ?r) [])) = ''/posts''"
    "toLowerCase (or_str (op_method ?h) ''GET'') = ''head''"
    "or_str (op_url ?h) (or_str (op_path ?h) (or_str (op_pathname ?h) [])) = ''/posts''"
    by (simp_all add: no_opts_def toLowerCase_def lower_char_def upper_letters_def
        lower_letters_def)
  have a: "applyTransformRequest ex_conf d hs = (d, hs)" for d hs
    by (simp add: applyTransformRequest_def t)
  have c0: "(case find_content_type (assign [] []) of
            Some k \<Rightarrow> (case map_of (assign [] []) k of Some v \<Rightarrow> v | None \<Rightarrow> [])
          | None \<Rightarrow> []) = []"
    by (simp add: assign_def find_content_type_def)
  have hj: "assign (assign [] []) [(''Content-Type'', ''application/json'')] =
      [(''Content-Type'', ''application/json'')]"
    "assign [] [(''Content-Type'', ''application/json'')] =
      [(''Content-Type'', ''application/json'')]"
    by (simp_all add: assign_def)
  have cj: "(case find_content_type [(''Content-Type'', ''application/json'')] of
            Some k \<Rightarrow> (case map_of [(''Content-Type'', ''application/json'')] k of
                         Some v \<Rightarrow> v | None \<Rightarrow> [])
          | None \<Rightarrow> []) = ''application/json''"
    by (simp add: find_content_type_def toLowerCase_def lower_char_def upper_letters_def
        lower_letters_def)
  have inc: "str_includes ''application/json'' ''application/json''" by simp
  have g: "api_get u (Some p) = Call ''get'' u p" "api_head u (Some p) = Call ''head'' u p" for u p
    by (simp_all add: api_get_def api_head_def verb_plain_def)
  show ?thesis
    using verbs_attach_body [where op = ?o and u = "''/posts''"
        and conf = ex_conf and st = "[]" and body = "JStr ''x''" and hs = "[]" and ct = "[]"
        and d = "JStr ''x''" and hs' = "[]" and ro = ?r]
      verbs_attach_body [where op = ex_json_opts and u = "''/posts''"
        and conf = ex_conf and st = "[]" and body = "JObj [(''a'', JNum 1)]"
        and hs = "[(''Content-Type'', ''application/json'')]" and ct = "''application/json''"
        and ro = ?h]
    unfolding o j r t a c0 hj cj g
    using inc by (simp add: nullish_def ex_json_object assign_def del: JSON_stringify.simps)
qed

section \<open>Properties of group cancellation\<close>

lemma cancel_hits: "c < length st \<Longrightarrow> ctl_aborted (cancel c st ! c)"
  by (simp add: cancel_def abort_def fire_worklist)

lemma cancel_listener:
  "sg < length st \<Longrightarrow> t < length st \<Longrightarrow> t \<in> set (ctl_listeners (st ! sg)) \<Longrightarrow>
   \<not> ctl_aborted (st ! sg) \<Longrightarrow> ctl_aborted (cancel sg st ! t)"
  using fire_listener [of sg st t "[sg]"] cancel_hits [of sg st]
  by (simp add: cancel_def abort_def)

lemma compose_group:
  assumes "op_group op = Some g" "g < length st" "\<not> ctl_aborted (st ! g)"
  shows "o_signal (fst (compose_signals op options st)) = Some (length st)"
    and "length st < length (snd (compose_signals op options st))"
    and "\<not> ctl_aborted (snd (compose_signals op options st) ! length st)"
    and "length st \<in> set (ctl_listeners (snd (compose_signals op options st) ! g))"
    and "ctl_aborted (cancel g (snd (compose_signals op options st)) ! length st)"
proof -
  let ?fresh = "\<lparr>ctl_aborted = False, ctl_listeners = []\<rparr>"
  let ?st1 = "st @ [?fresh]"
  let ?o1 = "case op_signal op of Some sg \<Rightarrow> options\<lparr>o_signal := Some sg\<rparr> | None \<Rightarrow> options"
  let ?st2 = "case o_signal ?o1 of Some sg \<Rightarrow> addEventListener ?st1 sg (length st) | None \<Rightarrow> ?st1"
  let ?st3 = "addEventListener ?st2 g (length st)"
  have st': "snd (compose_signals op options st) = ?st3"
    and o': "o_signal (fst (compose_signals op options st)) = Some (length st)"
    using assms(1)
    by (simp_all add: compose_signals_def Let_def new_AbortController_def)
  have len: "length ?st2 = Suc (length st)" by (simp split: option.split)
  have fresh: "\<not> ctl_aborted (?st2 ! length st)" by (simp split: option.split)
  have live: "\<not> ctl_aborted (?st3 ! g)"
    using assms(2,3) by (simp add: nth_append split: option.split)
  have lst: "length st \<in> set (ctl_listeners (?st3 ! g))"
    using assms(2) len by (simp add: addEventListener_def)
  show "o_signal (fst (compose_signals op options st)) = Some (length st)" by (rule o')
  show "length st < length (snd (compose_signals op options st))"
    unfolding st' using len by simp
  show "\<not> ctl_aborted (snd (compose_signals op options st) ! length st)"
    unfolding st' using fresh by simp
  show "length st \<in> set (ctl_listeners (snd (compose_signals op options st) ! g))"
    unfolding st' by (rule lst)
  show "ctl_aborted (cancel g (snd (compose_signals op options st)) ! length st)"
    unfolding st' using assms(2) len lst live by (intro cancel_listener) simp_all
qed

lemma attempt_group_cancelled:
  assumes sg: "o_signal (rc_options rc) = Some sg" "sg < length (fs_store s)"
      "\<not> ctl_aborted (fs_store s ! sg)"
    and g: "g < length (fs_store s)" "\<not> ctl_aborted (fs_store s ! g)"
      "sg \<in> set (ctl_listeners (fs_store s ! g))"
    and hit: "g \<in> set (ev_cancelled e)"
  shows "fst (snd (transport_attempt rc e s))"
proof -
  let ?st = "fs_store s"
  let ?ac = "length ?st"
  let ?st2 = "addEventListener (?st @ [\<lparr>ctl_aborted = False, ctl_listeners = []\<rparr>]) sg ?ac"
  let ?st3 = "fold cancel (ev_cancelled e) ?st2"
  have l1: "?ac \<in> set (ctl_listeners (?st2 ! sg))"
    using sg(2) by (simp add: addEventListener_def)
  have n1: "\<not> ctl_aborted (?st2 ! sg)"
    using sg(2,3) by (simp add: nth_append)
  have l2: "sg \<in> set (ctl_listeners (?st2 ! g))"
    using g(1,3) sg(2) by (cases "g = sg") (simp_all add: addEventListener_def nth_append)
  have n2: "\<not> ctl_aborted (?st2 ! g)"
    using g(1,2) by (simp add: nth_append)
  have "ctl_aborted (?st3 ! g)"
    using hit g(1) by (intro cancels_hit) simp_all
  moreover have "ctl_aborted (?st3 ! g) \<longrightarrow> ctl_aborted (?st3 ! sg)"
    using g(1) sg(2) l2 n2 by (intro cancels_listener) simp_all
  moreover have "ctl_aborted (?st3 ! sg) \<longrightarrow> ctl_aborted (?st3 ! ?ac)"
    using sg(2) l1 n1 by (intro cancels_listener) simp_all
  ultimately have a: "is_aborted ?st3 ?ac"
    by (simp add: is_aborted_def)
  then have "is_aborted (abort ?st3 ?ac) ?ac"
    by (simp add: is_aborted_def abort_def fire_mono)
  with a show ?thesis
    using sg(1) by (simp add: transport_attempt_def new_AbortController_def Let_def)
qed

lemma loop_aborted:
  assumes "fst (snd (transport_attempt rc (env (Suc n)) s))"
  shows "fst (fetchWithRetry_loop rc env start n s) =
     Threw (JsError ''AbortError'' ''The operation was aborted.'')"
proof -
  obtain out a s1 where att: "transport_attempt rc (env (Suc n)) s = (out, a, s1)"
    by (cases "transport_attempt rc (env (Suc n)) s") auto
  with assms have a: a by simp
  with att have out: "out = Rejects ''AbortError'' ''The operation was aborted.''"
    using attempt_aborted_outcome [of rc "env (Suc n)" s out s1] by simp
  from loop_abort [where env = env and n = n, OF att [unfolded out] a] show ?thesis by simp
qed

text \<open>
  Claim C6, as the code has it. A request made with a group gets a new controller, the
  composed one, that listens to the group's signal, and cancelling a group that was not
  cancelled before aborts every controller that listens to its signal, the composed one
  among them. If a transport attempt of the request is pending at that moment, and the
  composed signal had not fired when that attempt began, the attempt is aborted,
  \<^verbatim>\<open>fetchWithRetry\<close> throws the AbortError and the request resolves to the failure with
  status 0. The queue takes no notice of signals: when a running task settles, the first
  waiting task is taken off the queue and started, and it takes the concurrency slot.
\<close>

theorem group_cancellation:
  "(op_group op = Some g \<and> g < length st \<and> \<not> ctl_aborted (st ! g) \<longrightarrow>
      o_signal (fst (compose_signals op options st)) = Some (length st) \<and>
      \<not> ctl_aborted (snd (compose_signals op options st) ! length st) \<and>
      length st \<in> set (ctl_listeners (snd (compose_signals op options st) ! g)) \<and>
      ctl_aborted (cancel g (snd (compose_signals op options st)) ! length st)) \<and>
   (h < length st' \<and> c < length st' \<and> c \<in> set (ctl_listeners (st' ! h)) \<and>
    \<not> ctl_aborted (st' ! h) \<longrightarrow>
      ctl_aborted (cancel h st' ! h) \<and> ctl_aborted (cancel h st' ! c)) \<and>
   (o_signal (rc_options rc) = Some sg \<and> sg < length (fs_store s) \<and>
    \<not> ctl_aborted (fs_store s ! sg) \<and> h < length (fs_store s) \<and>
    \<not> ctl_aborted (fs_store s ! h) \<and> sg \<in> set (ctl_listeners (fs_store s ! h)) \<and>
    h \<in> set (ev_cancelled (env (Suc n))) \<longrightarrow>
      fst (fetchWithRetry_loop rc env start n s) =
        Threw (JsError ''AbortError'' ''The operation was aborted.'')) \<and>
   (fst (fetchWithRetry (retry_config p) env start (controllers w)) = Threw err \<longrightarrow>
      fst (task conf p env start now w) =
        Failure \<lparr>f_ok = False, f_status = 0, f_data = JNull, f_error = err, f_config = p_cfg p\<rparr>) \<and>
   (queue q = t # rest \<longrightarrow>
      activeCount (on_settled how r q) = activeCount q \<and>
      running (on_settled how r q) = remove1 r (running q) @ [t] \<and>
      queue (on_settled how r q) = rest \<and>
      admitted (on_settled how r q) = admitted q @ [t])"
proof (intro conjI impI)
  assume "op_group op = Some g \<and> g < length st \<and> \<not> ctl_aborted (st ! g)"
  then have a: "op_group op = Some g" "g < length st" "\<not> ctl_aborted (st ! g)" by simp_all
  show "o_signal (fst (compose_signals op options st)) = Some (length st)"
    and "\<not> ctl_aborted (snd (compose_signals op options st) ! length st)"
    and "length st \<in> set (ctl_listeners (snd (compose_signals op options st) ! g))"
    and "ctl_aborted (cancel g (snd (compose_signals op options st)) ! length st)"
    using compose_group [OF a] by simp_all
next
  assume "h < length st' \<and> c < length st' \<and> c \<in> set (ctl_listeners (st' ! h)) \<and>
    \<not> ctl_aborted (st' ! h)"
  then show "ctl_aborted (cancel h st' ! h)" and "ctl_aborted (cancel h st' ! c)"
    by (simp_all add: cancel_hits cancel_listener)
next
  assume "o_signal (rc_options rc) = Some sg \<and> sg < length (fs_store s) \<and>
    \<not> ctl_aborted (fs_store s ! sg) \<and> h < length (fs_store s) \<and>
    \<not> ctl_aborted (fs_store s ! h) \<and> sg \<in> set (ctl_listeners (fs_store s ! h)) \<and>
    h \<in> set (ev_cancelled (env (Suc n)))"
  then have "fst (snd (transport_attempt rc (env (Suc n)) s))"
    using attempt_group_cancelled [of rc sg s h "env (Suc n)"] by simp
  then show "fst (fetchWithRetry_loop rc env start n s) =
        Threw (JsError ''AbortError'' ''The operation was aborted.'')"
    by (rule loop_aborted)
next
  assume "fst (fetchWithRetry (retry_config p) env start (controllers w)) = Threw err"
  then show "fst (task conf p env start now w) =
        Failure \<lparr>f_ok = False, f_status = 0, f_data = JNull, f_error = err, f_config = p_cfg p\<rparr>"
    by (simp add: task_threw)
next
  assume "queue q = t # rest"
  then show "activeCount (on_settled how r q) = activeCount q"
    and "running (on_settled how r q) = remove1 r (running q) @ [t]"
    and "queue (on_settled how r q) = rest"
    and "admitted (on_settled how r q) = admitted q @ [t]"
    by (simp_all add: on_settled_effect)
qed

lemma ex_queued_retry:
  "retry_config ex_queued = \<lparr>rc_url = ''https://api.example.com/b'',
     rc_options = ex_options\<lparr>o_signal := Some 1\<rparr>, rc_retries = 0, rc_retryDelay = 300,
     rc_retryOn = None, rc_timeout = 0\<rparr>"
  by (simp add: retry_config_def ex_queued_def prepare_def)

theorem group_cancellation_witness:
  "o_signal (fst (compose_signals ex_group_opts ex_options
      [\<lparr>ctl_aborted = False, ctl_listeners = []\<rparr>])) = Some 1 \<and>
   ctl_aborted (cancel 0 (snd (compose_signals ex_group_opts ex_options
      [\<lparr>ctl_aborted = False, ctl_listeners = []\<rparr>])) ! 1) \<and>
   ctl_aborted (cancel 0 [\<lparr>ctl_aborted = False, ctl_listeners = [1]\<rparr>,
                          \<lparr>ctl_aborted = False, ctl_listeners = []\<rparr>] ! 1) \<and>
   fst (fetchWithRetry_loop (retry_config ex_queued) ex_group_cancel 0 0
     \<lparr>fs_store = [\<lparr>ctl_aborted = False, ctl_listeners = [1]\<rparr>,
                  \<lparr>ctl_aborted = False, ctl_listeners = []\<rparr>],
      fs_calls = [], fs_delays = []\<rparr>) =
     Threw (JsError ''AbortError'' ''The operation was aborted.'') \<and>
   fst (task ex_conf ex_queued ex_group_cancel 0 0 ex_inflight_world) =
     Failure \<lparr>f_ok = False, f_status = 0, f_data = JNull,
              f_error = JsError ''AbortError'' ''The operation was aborted.'',
              f_config = p_cfg ex_queued\<rparr> \<and>
   running (on_settled Rejected (1::nat) \<lparr>activeCount = 1, queue = [2], running = [1],
      arrived = [1, 2], admitted = [1]\<rparr>) = [2]"
proof -
  have c: "controllers ex_inflight_world =
      [\<lparr>ctl_aborted = False, ctl_listeners = [1]\<rparr>, \<lparr>ctl_aborted = False, ctl_listeners = []\<rparr>]"
    by (simp add: ex_inflight_world_def ex_world_def)
  show ?thesis
    using group_cancellation [where rc = "retry_config ex_queued" and sg = 1 and h = 0
        and env = ex_group_cancel and n = 0 and start = 0
        and s = "\<lparr>fs_store = [\<lparr>ctl_aborted = False, ctl_listeners = [1]\<rparr>,
                    \<lparr>ctl_aborted = False, ctl_listeners = []\<rparr>],
        fs_calls = [], fs_delays = []\<rparr>"
        and q = "\<lparr>activeCount = 1, queue = [2::nat], running = [1],
        arrived = [1, 2], admitted = [1]\<rparr>" and t = 2 and rest = "[]" and r = 1 and how = Rejected
        and op = ex_group_opts and g = 0 and st = "[\<lparr>ctl_aborted = False, ctl_listeners = []\<rparr>]"
        and options = ex_options and c = 1
        and st' = "[\<lparr>ctl_aborted = False, ctl_listeners = [1]\<rparr>,
                   \<lparr>ctl_aborted = False, ctl_listeners = []\<rparr>]"
        and p = ex_queued and w = ex_inflight_world and conf = ex_conf and now = 0
        and err = "JsError ''AbortError'' ''The operation was aborted.''"]
    unfolding c fetchWithRetry_def
    by (simp add: ex_queued_retry ex_group_cancel_def ex_group_opts_def)
qed

lemma ex_fullUrl_b: "fullUrl ex_conf ''/b'' = ''https://api.example.com/b''"
  by (simp add: fullUrl_def ex_conf_def is_absolute_def toLowerCase_def lower_char_def
      lower_letters_def upper_letters_def endsWith_def startsWith_def strip_trailing_slashes_def
      strip_leading_slashes_def)

lemma ex_group_config:
  "request_config ex_conf ''get'' ''/b'' ex_group_opts [\<lparr>ctl_aborted = False, ctl_listeners = []\<rparr>] =
     (p_cfg ex_queued,
      [\<lparr>ctl_aborted = False, ctl_listeners = [1]\<rparr>, \<lparr>ctl_aborted = False, ctl_listeners = []\<rparr>])"
  by (simp add: request_config_def ex_fullUrl_b ex_upper_get build_options_def compose_signals_def
      ex_group_opts_def no_opts_def applyTransformRequest_def assign_def nullish_def
      ex_queued_def prepare_def ex_options_def new_AbortController_def addEventListener_def)
     (simp add: ex_conf_def)

lemma ex_group_lookup:
  "handleFetchRaw ex_conf 0 ''get'' ''/b'' ex_group_opts ex_group_world =
     (Miss ex_queued,
      ex_world\<lparr>controllers := [\<lparr>ctl_aborted = False, ctl_listeners = [1]\<rparr>,
                                \<lparr>ctl_aborted = False, ctl_listeners = []\<rparr>]\<rparr>)"
proof -
  have c: "controllers ex_group_world = [\<lparr>ctl_aborted = False, ctl_listeners = []\<rparr>]"
    by (simp add: ex_group_world_def)
  have h: "applyRequestInterceptors ex_conf (p_cfg ex_queued) = p_cfg ex_queued"
    by (simp add: applyRequestInterceptors_def ex_conf_def)
  have t: "c_cacheTTL (p_cfg ex_queued) = 0" by (simp add: ex_queued_def prepare_def)
  have p: "prepare 0 (p_cfg ex_queued) = ex_queued" by (simp add: ex_queued_def prepare_def)
  have z: "p_cacheTTL ex_queued = 0" by (simp add: ex_queued_def prepare_def)
  show ?thesis
    by (simp add: handleFetchRaw_def c ex_group_config h t p z) (simp add: ex_group_world_def)
qed

lemma ex_group_cancelled:
  "cancel 0 [\<lparr>ctl_aborted = False, ctl_listeners = [1]\<rparr>, \<lparr>ctl_aborted = False, ctl_listeners = []\<rparr>] =
     [\<lparr>ctl_aborted = True, ctl_listeners = [1]\<rparr>, \<lparr>ctl_aborted = True, ctl_listeners = []\<rparr>]"
  by (simp add: cancel_def abort_def fire.simps)

lemma ex_queued_attempt:
  "transport_attempt (retry_config ex_queued) (ex_answers res k)
     \<lparr>fs_store = controllers ex_cancelled_world, fs_calls = [], fs_delays = []\<rparr> =
   (Resolves res, False,
      \<lparr>fs_store = [\<lparr>ctl_aborted = True, ctl_listeners = [1]\<rparr>,
                   \<lparr>ctl_aborted = True, ctl_listeners = [2]\<rparr>,
                   \<lparr>ctl_aborted = False, ctl_listeners = []\<rparr>],
       fs_calls = [(''https://api.example.com/b'', ex_options\<lparr>o_signal := Some 2\<rparr>)],
       fs_delays = []\<rparr>)"
  by (simp add: ex_queued_retry transport_attempt_def ex_answers_def ex_options_def
      new_AbortController_def is_aborted_def ex_cancelled_world_def ex_world_def
      addEventListener_def)

lemma ex_queued_fetch:
  "fetchWithRetry (retry_config ex_queued) (ex_answers (ex_reply True 200 ''b'')) 0
     (controllers ex_cancelled_world) =
     (Returned (ex_reply True 200 ''b'') 40,
      \<lparr>fs_store = [\<lparr>ctl_aborted = True, ctl_listeners = [1]\<rparr>,
                   \<lparr>ctl_aborted = True, ctl_listeners = [2]\<rparr>,
                   \<lparr>ctl_aborted = False, ctl_listeners = []\<rparr>],
       fs_calls = [(''https://api.example.com/b'', ex_options\<lparr>o_signal := Some 2\<rparr>)],
       fs_delays = []\<rparr>)"
  unfolding fetchWithRetry_def
  using loop_return [where env = "ex_answers (ex_reply True 200 ''b'')" and n = 0,
      OF ex_queued_attempt, of 0]
  by (simp add: ex_reply_def ex_answers_def)

lemma ex_queued_shape:
  "shape_response ex_conf (build_response (p_cfg ex_queued) (ex_reply True 200 ''b'') 40) = ex_served"
  by (simp add: shape_response_def build_response_def parse_data_def headers_get_def ex_reply_def
      toLowerCase_def lower_char_def lower_letters_def upper_letters_def
      applyTransformResponse_def applyResponseInterceptors_def ex_conf_def ex_served_def)

lemma ex_queued_task:
  "fst (task ex_conf ex_queued (ex_answers (ex_reply True 200 ''b'')) 0 0 ex_cancelled_world) =
     Success ex_served \<and>
   transport_log (snd (task ex_conf ex_queued (ex_answers (ex_reply True 200 ''b'')) 0 0
     ex_cancelled_world)) = [(''https://api.example.com/b'', ex_options\<lparr>o_signal := Some 2\<rparr>)]"
proof -
  have ok: "res_ok (ex_reply True 200 ''b'')" by (simp add: ex_reply_def)
  have z: "p_cacheTTL ex_queued = 0" by (simp add: ex_queued_def prepare_def)
  have l: "transport_log ex_cancelled_world = []" by (simp add: ex_cancelled_world_def ex_world_def)
  show ?thesis
    using task_ok [of ex_queued "ex_answers (ex_reply True 200 ''b'')" 0 ex_cancelled_world
      "ex_reply True 200 ''b''" 40 ex_conf 0]
    unfolding ex_queued_fetch ex_queued_shape
    using ok by (simp add: cache_write_def z absorb_def l)
qed

text \<open>
  Claim C6 as stated fails. With room for one task, a request waits in the queue behind
  a running one; its group is cancelled, so its composed signal (controller 1) has
  fired. When the running task settles, the waiting task is started all the same and
  takes the slot; it calls the transport, and as the listener it adds to the signal is
  never called, the call is not aborted and the request resolves to the reply, not to an
  aborted failure.
\<close>

theorem queued_cancel_counterexample:
  "handleFetchRaw ex_conf 0 ''get'' ''/b'' ex_group_opts ex_group_world =
     (Miss ex_queued,
      ex_world\<lparr>controllers := [\<lparr>ctl_aborted = False, ctl_listeners = [1]\<rparr>,
                                \<lparr>ctl_aborted = False, ctl_listeners = []\<rparr>]\<rparr>) \<and>
   o_signal (p_options ex_queued) = Some 1 \<and>
   queue (exec (Limit 1) [Submit (prepare 10 ex_get_cfg), Submit ex_queued]) = [ex_queued] \<and>
   cancel 0 [\<lparr>ctl_aborted = False, ctl_listeners = [1]\<rparr>, \<lparr>ctl_aborted = False, ctl_listeners = []\<rparr>] =
     controllers ex_cancelled_world \<and>
   is_aborted (controllers ex_cancelled_world) 1 \<and>
   running (exec (Limit 1) [Submit (prepare 10 ex_get_cfg), Submit ex_queued,
      Settles (prepare 10 ex_get_cfg) Fulfilled]) = [ex_queued] \<and>
   activeCount (exec (Limit 1) [Submit (prepare 10 ex_get_cfg), Submit ex_queued,
      Settles (prepare 10 ex_get_cfg) Fulfilled]) = 1 \<and>
   fst (task ex_conf ex_queued (ex_answers (ex_reply True 200 ''b'')) 0 0 ex_cancelled_world) =
     Success ex_served \<and>
   transport_log (snd (task ex_conf ex_queued (ex_answers (ex_reply True 200 ''b'')) 0 0
     ex_cancelled_world)) = [(''https://api.example.com/b'', ex_options\<lparr>o_signal := Some 2\<rparr>)]"
proof -
  have "o_signal (p_options ex_queued) = Some 1"
    by (simp add: ex_queued_def prepare_def ex_options_def)
  moreover have "queue (exec (Limit 1) [Submit (prepare 10 ex_get_cfg), Submit ex_queued]) = [ex_queued]"
    by (simp add: exec_def enqueue_def run_def empty_queue_def Let_def)
  moreover have "controllers ex_cancelled_world =
      [\<lparr>ctl_aborted = True, ctl_listeners = [1]\<rparr>, \<lparr>ctl_aborted = True, ctl_listeners = []\<rparr>]"
    by (simp add: ex_cancelled_world_def ex_world_def)
  moreover have "running (exec (Limit 1) [Submit (prepare 10 ex_get_cfg), Submit ex_queued,
      Settles (prepare 10 ex_get_cfg) Fulfilled]) = [ex_queued]"
    and "activeCount (exec (Limit 1) [Submit (prepare 10 ex_get_cfg), Submit ex_queued,
      Settles (prepare 10 ex_get_cfg) Fulfilled]) = 1"
    by (simp_all add: exec_def enqueue_def run_def on_settled_def empty_queue_def Let_def)
  ultimately show ?thesis
    using ex_group_lookup ex_group_cancelled ex_queued_task
    by (simp add: is_aborted_def)
qed

end
